theory Spec2Isabelle
  imports Main "HOL-Library.AList"
begin

section \<open>JavaScript values\<close>

text \<open>
  The application is a TypeScript client whose data crosses two untyped borders: rows
  come back from the remote row store as plain objects, and answers of the generative
  model come back through \<^verbatim>\<open>JSON.parse\<close> as \<^verbatim>\<open>any\<close>. The model
  therefore works on JSON values. An object is an association list of its defined
  properties; a property that is \<^verbatim>\<open>undefined\<close> is absent, and a value that may be
  \<^verbatim>\<open>undefined\<close> is a \<open>json option\<close> with \<open>None\<close> for \<^verbatim>\<open>undefined\<close>.
  Numbers are integers (no fractional number occurs in the code paths below); what an
  integer beyond the range of exact doubles stands for is said with the numbers below.
  Strings are lists of characters with codes up to 255 (U+0000 to U+00FF); text with
  other characters is outside the model.
\<close>

datatype json =
    JNull
  | JBool bool
  | JNum int
  | JStr string
  | JArr "json list"
  | JObj "(string \<times> json) list"

type_synonym obj = "(string \<times> json) list"

text \<open>
  Every \<^verbatim>\<open>throw\<close> of the source and every rejection of a collaborator is a value:
  \<^item> \<open>ApiKeyNotSet\<close>: \<^verbatim>\<open>Error("API_KEY environment variable not set")\<close> of \<^verbatim>\<open>getAi\<close>;
  \<^item> \<open>MimeTypeRequired\<close>: \<^verbatim>\<open>Error("Mime type is required for image analysis.")\<close>;
  \<^item> \<open>UnsupportedContentType t\<close>: \<^verbatim>\<open>Error("Unsupported content type for categorization: " + t)\<close>,
    the specification's \<^verbatim>\<open>ValidationError\<close>;
  \<^item> \<open>FileReadError\<close>: \<^verbatim>\<open>Error("Failed to read file as base64 string")\<close>;
  \<^item> \<open>TypeError\<close> and \<open>SyntaxError\<close>: the exceptions of the language itself (a property of
    \<^verbatim>\<open>null\<close>, a method that is not there, a spread of what is not iterable; \<^verbatim>\<open>JSON.parse\<close>);
  \<^item> \<open>NotAuthenticated\<close>: \<^verbatim>\<open>Error("User not authenticated.")\<close> of \<^verbatim>\<open>getUserId\<close>;
  \<^item> \<open>AIError\<close>, \<open>StoreError\<close>, \<open>NetworkError\<close>: a failure reported by the generative
    model, by the row store, by \<^verbatim>\<open>fetch\<close>.
\<close>

datatype error =
    ApiKeyNotSet
  | MimeTypeRequired
  | UnsupportedContentType "json option"
  | FileReadError
  | TypeError
  | SyntaxError
  | NotAuthenticated
  | AIError string
  | StoreError string
  | NetworkError string

definition bind_e :: "error + 'a \<Rightarrow> ('a \<Rightarrow> error + 'b) \<Rightarrow> error + 'b" where
  "bind_e r f = (case r of Inl e \<Rightarrow> Inl e | Inr x \<Rightarrow> f x)"

text \<open>\<^verbatim>\<open>o.k\<close> on a value: a \<^verbatim>\<open>TypeError\<close> on \<^verbatim>\<open>null\<close> and \<^verbatim>\<open>undefined\<close>,
  the property of an object, and \<^verbatim>\<open>undefined\<close> on every other value (none of the
  property names read below is a built-in of strings, numbers, booleans or arrays).\<close>

fun get_prop :: "json option \<Rightarrow> string \<Rightarrow> error + json option" where
  "get_prop None k = Inl TypeError"
| "get_prop (Some JNull) k = Inl TypeError"
| "get_prop (Some (JObj kvs)) k = Inr (map_of kvs k)"
| "get_prop (Some v) k = Inr None"

text \<open>An object literal (its property names are pairwise different in every use below):
  properties whose value is \<^verbatim>\<open>undefined\<close> are left out.\<close>

fun mk_obj :: "(string \<times> json option) list \<Rightarrow> obj" where
  "mk_obj [] = []"
| "mk_obj ((k, None) # kvs) = mk_obj kvs"
| "mk_obj ((k, Some v) # kvs) = (k, v) # mk_obj kvs"

text \<open>\<^verbatim>\<open>o.k = v\<close>.\<close>

definition set_prop :: "string \<Rightarrow> json option \<Rightarrow> obj \<Rightarrow> obj" where
  "set_prop k v ob = (case v of None \<Rightarrow> AList.delete k ob | Some x \<Rightarrow> AList.update k x ob)"

text \<open>Truthiness, as \<^verbatim>\<open>if (v)\<close>, \<^verbatim>\<open>!v\<close> and \<^verbatim>\<open>v || w\<close> read it.\<close>

fun truthy :: "json option \<Rightarrow> bool" where
  "truthy None = False"
| "truthy (Some JNull) = False"
| "truthy (Some (JBool b)) = b"
| "truthy (Some (JNum n)) = (n \<noteq> 0)"
| "truthy (Some (JStr s)) = (s \<noteq> [])"
| "truthy (Some (JArr xs)) = True"
| "truthy (Some (JObj kvs)) = True"

text \<open>The spread \<^verbatim>\<open>...v\<close> inside an array literal: the elements of an array, the
  characters of a string, a \<^verbatim>\<open>TypeError\<close> on anything that is not iterable.\<close>

fun spread :: "json option \<Rightarrow> error + json list" where
  "spread (Some (JArr xs)) = Inr xs"
| "spread (Some (JStr s)) = Inr (map (\<lambda>c. JStr [c]) s)"
| "spread v = Inl TypeError"

text \<open>Strict equality \<^verbatim>\<open>a[j] === a[i]\<close> between two places of an array whose
  elements were freshly decoded: primitives compare by value, an object or an array is
  equal only to itself.\<close>

fun primitive :: "json \<Rightarrow> bool" where
  "primitive (JArr xs) = False"
| "primitive (JObj kvs) = False"
| "primitive v = True"

definition strict_eq_at :: "json list \<Rightarrow> nat \<Rightarrow> nat \<Rightarrow> bool" where
  "strict_eq_at a j i = (j = i \<or> (primitive (a ! j) \<and> a ! j = a ! i))"

text \<open>\<^verbatim>\<open>a.indexOf(a[i])\<close> for a place \<open>i\<close> of the array.\<close>

definition indexOf_at :: "json list \<Rightarrow> nat \<Rightarrow> int" where
  "indexOf_at a i =
     (case find (\<lambda>j. strict_eq_at a j i) [0..<length a] of
        Some j \<Rightarrow> int j
      | None \<Rightarrow> - 1)"

text \<open>\<^verbatim>\<open>a.filter((v, i, a) => a.indexOf(v) === i)\<close>.\<close>

definition dedup :: "json list \<Rightarrow> json list" where
  "dedup a = map (\<lambda>i. a ! i) (filter (\<lambda>i. indexOf_at a i = int i) [0..<length a])"

subsection \<open>Strings\<close>

text \<open>White space as \<^verbatim>\<open>trim\<close> and \<^verbatim>\<open>parseInt\<close> skip it: of the characters up to
  U+00FF these are tab, line feed, vertical tab, form feed, carriage return, space and
  the no-break space U+00A0.\<close>

definition is_space :: "char \<Rightarrow> bool" where
  "is_space c =
     (c \<in> set [CHR '' '', CHR 0x09, CHR 0x0A, CHR 0x0B, CHR 0x0C, CHR 0x0D, CHR 0xA0])"

text \<open>\<^verbatim>\<open>s.trim()\<close>.\<close>

definition js_trim :: "string \<Rightarrow> string" where
  "js_trim s = rev (dropWhile is_space (rev (dropWhile is_space s)))"

text \<open>\<^verbatim>\<open>s.toLowerCase()\<close>: of the characters up to U+00FF the capital letters are
  A to Z and U+00C0 to U+00DE without the multiplication sign U+00D7; the small letter
  of each is 32 places further.\<close>

definition lower_char :: "char \<Rightarrow> char" where
  "lower_char c =
     (if ((65::nat) \<le> of_char c \<and> of_char c \<le> (90::nat))
         \<or> ((192::nat) \<le> of_char c \<and> of_char c \<le> (222::nat) \<and> of_char c \<noteq> (215::nat))
      then char_of (of_char c + (32::nat)) else c)"

definition js_toLowerCase :: "string \<Rightarrow> string" where
  "js_toLowerCase s = map lower_char s"

text \<open>\<^verbatim>\<open>s.includes(t)\<close> on strings: \<open>t\<close> occurs in \<open>s\<close>.\<close>

fun str_includes :: "string \<Rightarrow> string \<Rightarrow> bool" where
  "str_includes [] t = (t = [])"
| "str_includes (c # s) t = (take (length t) (c # s) = t \<or> str_includes s t)"

text \<open>\<^verbatim>\<open>s.split(sep)\<close> for a one-character separator, and \<^verbatim>\<open>xs[i]\<close>, which is
  \<^verbatim>\<open>undefined\<close> out of range.\<close>

fun js_split :: "char \<Rightarrow> string \<Rightarrow> string list" where
  "js_split sep [] = [[]]"
| "js_split sep (c # s) =
     (if c = sep then [] # js_split sep s
      else (case js_split sep s of
              [] \<Rightarrow> [[c]]
            | w # ws \<Rightarrow> (c # w) # ws))"

definition nth_opt :: "'a list \<Rightarrow> nat \<Rightarrow> 'a option" where
  "nth_opt xs i = (if i < length xs then Some (xs ! i) else None)"

section \<open>Tags\<close>

text \<open>
  The enrichment pipeline (\<^verbatim>\<open>handleAddItem\<close>) merges the tags of the model's answer
  into the tags the new item has:
  \<^verbatim>\<open>[...(newItem.tags || []), ...tags].filter((v, i, a) => a.indexOf(v) === i)\<close>.
\<close>

definition merge_tags :: "json option \<Rightarrow> json option \<Rightarrow> error + json list" where
  "merge_tags old new =
     bind_e (spread (if truthy old then old else Some (JArr []))) (\<lambda>xs.
     bind_e (spread new) (\<lambda>ys.
     Inr (dedup (xs @ ys))))"

text \<open>\<^verbatim>\<open>item.tags?.includes(newTag)\<close> of \<^verbatim>\<open>handleAddTag\<close>: \<^verbatim>\<open>undefined\<close> (here
  \<open>False\<close>, it is only negated) when there are no tags, membership in an array,
  occurrence in a string, and a \<^verbatim>\<open>TypeError\<close> on a value without the method.\<close>

fun tags_includes :: "json option \<Rightarrow> string \<Rightarrow> error + bool" where
  "tags_includes None t = Inr False"
| "tags_includes (Some JNull) t = Inr False"
| "tags_includes (Some (JArr xs)) t = Inr (JStr t \<in> set xs)"
| "tags_includes (Some (JStr s)) t = Inr (str_includes s t)"
| "tags_includes (Some v) t = Inl TypeError"

text \<open>
  \<^verbatim>\<open>handleAddTag\<close> of the content card, on the item shown, the key pressed and the
  tag input's text. It returns the update handed to \<^verbatim>\<open>onUpdate\<close> (if any) and the
  tag input's text afterwards; an exception leaves the handler before the input is cleared.
\<close>

definition handleAddTag :: "obj \<Rightarrow> string \<Rightarrow> string \<Rightarrow> (error + obj option) \<times> string" where
  "handleAddTag item key tagInput =
     (if key = ''Enter'' \<and> js_trim tagInput \<noteq> [] then
        (let newTag = js_toLowerCase (js_trim tagInput) in
         case tags_includes (map_of item ''tags'') newTag of
           Inl e \<Rightarrow> (Inl e, tagInput)
         | Inr True \<Rightarrow> (Inr None, [])
         | Inr False \<Rightarrow>
             (case spread (if truthy (map_of item ''tags'') then map_of item ''tags''
                           else Some (JArr [])) of
                Inl e \<Rightarrow> (Inl e, tagInput)
              | Inr ts \<Rightarrow>
                  (Inr (Some (mk_obj [(''id'', map_of item ''id''),
                                      (''tags'', Some (JArr (ts @ [JStr newTag])))])), [])))
      else (Inr None, tagInput))"

text \<open>
  A tag addition, seen from the item's \<^verbatim>\<open>tags\<close> value. The history lists the values
  the item's tags have held, the newest first and the value at creation last; the head
  is what the store holds now. The user's addition works on the item as the card shows
  it, which is the current value or, when the card has not caught up, one that is some
  writes old. The pipeline merges the model's tags into the tags the item was created
  with (it never reads the item again). Each addition that writes puts its value in
  front; one that raises or writes nothing leaves the history as it is.
\<close>

datatype tag_op = UserAdd nat string | PipelineMerge "json option"

definition shown :: "nat \<Rightarrow> json option list \<Rightarrow> json option" where
  "shown age hist = (if hist = [] then None else hist ! min age (length hist - 1))"

definition created_with :: "json option list \<Rightarrow> json option" where
  "created_with hist = (if hist = [] then None else last hist)"

fun apply_tag_op :: "tag_op \<Rightarrow> json option list \<Rightarrow> json option list" where
  "apply_tag_op (UserAdd age inp) hist =
     (case fst (handleAddTag (mk_obj [(''tags'', shown age hist)]) ''Enter'' inp) of
        Inr (Some upd) \<Rightarrow> map_of upd ''tags'' # hist
      | _ \<Rightarrow> hist)"
| "apply_tag_op (PipelineMerge new) hist =
     (case merge_tags (created_with hist) new of
        Inr ts \<Rightarrow> Some (JArr ts) # hist
      | Inl e \<Rightarrow> hist)"

text \<open>No duplicate entries: the primitive entries (strings among them) of a tags value
  are pairwise different; an absent or \<^verbatim>\<open>null\<close> value has no entries.\<close>

fun dup_free :: "json option \<Rightarrow> bool" where
  "dup_free None = True"
| "dup_free (Some JNull) = True"
| "dup_free (Some (JArr xs)) = distinct (filter primitive xs)"
| "dup_free (Some v) = False"

section \<open>Numbers and their text\<close>

text \<open>
  JavaScript's numbers are doubles. \<open>JNum n\<close> with a safe integer \<open>n\<close> (of magnitude
  at most \<open>2\<^sup>5\<^sup>3 - 1\<close>, \<^verbatim>\<open>Number.isSafeInteger\<close>) is that number, and
  \<^verbatim>\<open>String\<close> prints its decimal digits. Any other \<open>JNum n\<close> stands for the
  double that JavaScript makes of the integer \<open>n\<close>; the text it prints for that double
  (the shortest digits that read back as the double, with an exponent from \<open>10\<^sup>2\<^sup>1\<close>
  on) is not computed here: it is a parameter, \<open>number_text\<close> below. Two different
  integers beyond the safe range can stand for the same double; nothing is proved below
  about numbers that are not safe integers.

  \<^verbatim>\<open>String(v)\<close>: the text of a string itself, the elements of an array joined by
  commas (\<^verbatim>\<open>null\<close> elements as the empty text), the fixed text of an object.
  \<^verbatim>\<open>String(undefined)\<close> is \<^verbatim>\<open>"undefined"\<close>.
\<close>

definition safe_integer :: "int \<Rightarrow> bool" where
  "safe_integer n = (\<bar>n\<bar> \<le> 9007199254740991)"

definition digit_char :: "nat \<Rightarrow> char" where
  "digit_char d = ''0123456789'' ! d"

function show_digits :: "int \<Rightarrow> string" where
  "show_digits n =
     (if n < 10 then [digit_char (nat n)]
      else show_digits (n div 10) @ [digit_char (nat (n mod 10))])"
  by pat_completeness auto
termination
  by (relation "measure nat") auto

declare show_digits.simps [simp del]

definition show_int :: "int \<Rightarrow> string" where
  "show_int n = (if n < 0 then CHR ''-'' # show_digits (- n) else show_digits n)"

fun join_comma :: "string list \<Rightarrow> string" where
  "join_comma [] = []"
| "join_comma [s] = s"
| "join_comma (s # t # ss) = s @ CHR '','' # join_comma (t # ss)"

text \<open>The first argument is the platform's text for the numbers that are not safe
  integers.\<close>

fun js_String :: "(int \<Rightarrow> string) \<Rightarrow> json \<Rightarrow> string" where
  "js_String nt JNull = ''null''"
| "js_String nt (JBool b) = (if b then ''true'' else ''false'')"
| "js_String nt (JNum n) = (if safe_integer n then show_int n else nt n)"
| "js_String nt (JStr s) = s"
| "js_String nt (JArr xs) = join_comma (map (\<lambda>x. if x = JNull then [] else js_String nt x) xs)"
| "js_String nt (JObj kvs) = ''[object Object]''"

text \<open>\<^verbatim>\<open>${v}\<close> in a template literal.\<close>

definition template :: "(int \<Rightarrow> string) \<Rightarrow> json option \<Rightarrow> string" where
  "template nt v = (case v of None \<Rightarrow> ''undefined'' | Some x \<Rightarrow> js_String nt x)"

text \<open>
  \<^verbatim>\<open>parseInt(s, 10)\<close>: leading white space is skipped, one sign is read, then the
  longest run of decimal digits; with no digit the result is \<^verbatim>\<open>NaN\<close>, here \<open>None\<close>.
  The result is the integer the digits spell; as a number it is \<open>JNum\<close> of that integer
  (the double JavaScript makes of it when it is not a safe integer).
\<close>

definition is_digit :: "char \<Rightarrow> bool" where
  "is_digit c = ((48::nat) \<le> of_char c \<and> of_char c \<le> (57::nat))"

definition digit_val :: "char \<Rightarrow> int" where
  "digit_val c = int (of_char c) - 48"

definition digits_val :: "string \<Rightarrow> int" where
  "digits_val ds = foldl (\<lambda>a c. 10 * a + digit_val c) 0 ds"

definition parseInt10 :: "string \<Rightarrow> int option" where
  "parseInt10 s =
     (let t = dropWhile is_space s;
          neg = (t \<noteq> [] \<and> hd t = CHR ''-'');
          u = (if t \<noteq> [] \<and> (hd t = CHR ''-'' \<or> hd t = CHR ''+'') then tl t else t);
          ds = takeWhile is_digit u
      in if ds = [] then None
         else Some (if neg then - digits_val ds else digits_val ds))"

section \<open>The world outside the client\<close>

text \<open>
  The generative model, the row store, the network and the browser are collaborators.
  What they answer is a parameter of the model (\<open>env\<close>); what the client changes is
  explicit state (\<open>world\<close>).
\<close>

type_synonym blob = string

record jsfile =
  file_name :: string
  file_type :: string
  file_blob :: blob

text \<open>A request to \<^verbatim>\<open>ai.models.generateContent\<close>. The organizer's prompt embeds
  \<^verbatim>\<open>JSON.stringify(contentItems, null, 2)\<close>; the request keeps the items as data
  between the two halves of the prompt text. A response schema keeps its types and its
  required names (descriptions are dropped).\<close>

datatype part = InlineData "string option" "json option" | TextPart string

datatype contents = Prompt string | PromptJson string "obj list" string | Parts "part list"

datatype schema =
    SString
  | SInteger
  | SArray schema
  | SObject "(string \<times> schema) list" "string list"

record config =
  responseMimeType :: "string option"
  responseSchema :: "schema option"
  tools :: "string list"

record request =
  req_model :: string
  req_contents :: contents
  req_config :: config

definition no_config :: config where
  "no_config = \<lparr>responseMimeType = None, responseSchema = None, tools = []\<rparr>"

type_synonym table = "json \<Rightarrow> obj option"

datatype store_request =
    Insert obj
  | Update "json option" obj
  | Select

text \<open>
  \<^item> \<open>API_KEY\<close>: \<^verbatim>\<open>process.env.API_KEY\<close>.
  \<^item> \<open>generateContent\<close>: the \<^verbatim>\<open>text\<close> of the model's response, or its failure.
  \<^item> \<open>JSON_parse\<close>: \<^verbatim>\<open>JSON.parse\<close>, \<open>None\<close> for its \<^verbatim>\<open>SyntaxError\<close>.
  \<^item> \<open>number_text\<close>: the text \<^verbatim>\<open>String\<close> prints for a number that is not a safe
    integer.
  \<^item> \<open>fetch_blob\<close>: \<^verbatim>\<open>fetch(url)\<close> followed by \<^verbatim>\<open>response.blob()\<close>.
  \<^item> \<open>readAsDataURL\<close>: the \<^verbatim>\<open>FileReader\<close>'s result, \<open>Inr None\<close> when it is not a string.
  \<^item> \<open>session_user\<close>: the id of the signed-in user, if any.
  \<^item> \<open>store_refuses\<close>: the row store's refusal of an insert, an update or a select
    (connectivity, policy, constraint), given the table as it stands.
  \<^item> \<open>store_new_row\<close>: the row the store creates for an insert (it assigns
    \<^verbatim>\<open>id\<close> and \<^verbatim>\<open>created_at\<close>).
  \<^item> \<open>store_select\<close>: the rows of the table, newest first.
  \<^item> \<open>store_upsert\<close>: the row store's answer to \<^verbatim>\<open>upsert(rows)\<close>, its error if any
    and the table afterwards. What the store does with a row whose id it does not hold
    (create it, or refuse it for the columns it lacks) depends on the remote table's keys,
    required columns and policies; none of them is in the repository.
\<close>

record env =
  API_KEY :: "string option"
  generateContent :: "request \<Rightarrow> error + string"
  JSON_parse :: "string \<Rightarrow> json option"
  number_text :: "int \<Rightarrow> string"
  fetch_blob :: "json option \<Rightarrow> error + blob"
  readAsDataURL :: "jsfile \<Rightarrow> error + string option"
  session_user :: "string option"
  store_refuses :: "store_request \<Rightarrow> table \<Rightarrow> error option"
  store_new_row :: "obj \<Rightarrow> table \<Rightarrow> obj"
  store_select :: "table \<Rightarrow> obj list"
  store_upsert :: "obj list \<Rightarrow> table \<Rightarrow> error option \<times> table"

text \<open>One entry of the call log for every call of a gateway function by a handler,
  appended when the call returns, with its argument and its outcome.\<close>

datatype event =
    Fetch "json option" "error + blob"
  | TranscribeAudio jsfile "error + string"
  | SummarizeContent "json option" string "error + string"
  | CategorizeAndTagContent obj "error + json"
  | OrganizeContent "obj list" "error + json"
  | AddContentItem obj "error + obj"
  | UpdateContentItem obj "error + obj"
  | UpdateMultipleContentItems "obj list" "error + unit"

text \<open>
  An \<^verbatim>\<open>async\<close> function runs, when it is called, up to its first \<^verbatim>\<open>await\<close>; what
  it throws on the way is kept by its promise. The rest runs when what it awaits has
  settled. The enrichment block of \<^verbatim>\<open>handleAddItem\<close> is called inside the handler and
  not awaited, so it is left at its first \<^verbatim>\<open>await\<close> when the handler returns:
  \<^item> \<open>AwaitFetch newItem\<close>: at \<^verbatim>\<open>await fetch(newItem.content)\<close> (an audio item);
  \<^item> \<open>AwaitSummary newItem sent\<close>: at \<^verbatim>\<open>await geminiService.summarizeContent(...)\<close>
    (a link), the gateway function having thrown (\<open>sent = Inl e\<close>) or sent its request;
  \<^item> \<open>AwaitCategories newItem sent\<close>: at
    \<^verbatim>\<open>await geminiService.categorizeAndTagContent(...)\<close> (any other item), likewise.
\<close>

datatype task =
    AwaitFetch obj
  | AwaitSummary obj "error + request"
  | AwaitCategories obj "error + request"

fun task_item :: "task \<Rightarrow> obj" where
  "task_item (AwaitFetch newItem) = newItem"
| "task_item (AwaitSummary newItem sent) = newItem"
| "task_item (AwaitCategories newItem sent) = newItem"

text \<open>
  \<^item> \<open>ai\<close>: the module variable \<^verbatim>\<open>ai\<close> of the AI gateway holds a client.
  \<^item> \<open>rows\<close>: the remote table \<^verbatim>\<open>content_items\<close>, keyed by \<^verbatim>\<open>id\<close>.
  \<^item> \<open>calls\<close>: the call log.
  \<^item> \<open>tasks\<close>: the enrichment tasks that were started and have not been resumed.
  \<^item> \<open>message\<close>: what \<^verbatim>\<open>setError\<close> was last given (\<open>Quiet\<close> for the empty
    text, \<open>OrganizationFailed err\<close> for the organizer's text built from an exception).
  \<^item> \<open>console\<close>: what \<^verbatim>\<open>console.error\<close> was given.
\<close>

datatype notice = Quiet | Notice string | OrganizationFailed error

record world =
  ai :: bool
  rows :: table
  calls :: "event list"
  tasks :: "task list"
  message :: notice
  console :: "error list"

type_synonym 'a io = "world \<Rightarrow> (error + 'a) \<times> world"

definition io_ret :: "'a \<Rightarrow> 'a io" where
  "io_ret x w = (Inr x, w)"

definition io_lift :: "error + 'a \<Rightarrow> 'a io" where
  "io_lift r w = (r, w)"

definition io_bind :: "'a io \<Rightarrow> ('a \<Rightarrow> 'b io) \<Rightarrow> 'b io" where
  "io_bind m f w = (case m w of (Inl e, w') \<Rightarrow> (Inl e, w') | (Inr x, w') \<Rightarrow> f x w')"

definition io_log :: "(error + 'a \<Rightarrow> event) \<Rightarrow> 'a io \<Rightarrow> 'a io" where
  "io_log ev m w = (case m w of (r, w') \<Rightarrow> (r, w'\<lparr>calls := calls w' @ [ev r]\<rparr>))"

section \<open>The AI gateway (geminiService)\<close>

definition getAi :: "env \<Rightarrow> unit io" where
  "getAi env w =
     (if \<not> ai w then
        (if API_KEY env = None \<or> API_KEY env = Some [] then (Inl ApiKeyNotSet, w)
         else (Inr (), w\<lparr>ai := True\<rparr>))
      else (Inr (), w))"

definition fileToGenerativePart :: "env \<Rightarrow> jsfile \<Rightarrow> error + part" where
  "fileToGenerativePart env f =
     bind_e (readAsDataURL env f) (\<lambda>res.
       case res of
         None \<Rightarrow> Inl FileReadError
       | Some s \<Rightarrow> Inr (InlineData (nth_opt (js_split CHR '','' s) 1) (Some (JStr (file_type f)))))"

text \<open>\<^verbatim>\<open>base64ToGenerativePart(base64, mimeType)\<close>: \<^verbatim>\<open>base64.split(',')[1]\<close> needs a
  string.\<close>

definition base64ToGenerativePart :: "json option \<Rightarrow> json option \<Rightarrow> error + part" where
  "base64ToGenerativePart base64 mimeType =
     (case base64 of
        Some (JStr s) \<Rightarrow> Inr (InlineData (nth_opt (js_split CHR '','' s) 1) mimeType)
      | _ \<Rightarrow> Inl TypeError)"

definition transcribeAudio :: "env \<Rightarrow> jsfile \<Rightarrow> string io" where
  "transcribeAudio env audioFile =
     io_bind (getAi env) (\<lambda>_.
     io_bind (io_lift (fileToGenerativePart env audioFile)) (\<lambda>audioPart.
     io_lift (generateContent env
       \<lparr>req_model = ''gemini-2.5-flash'',
        req_contents = Parts [audioPart, TextPart ''Transcribe this audio.''],
        req_config = no_config\<rparr>)))"

definition basePrompt :: string where
  \<open>basePrompt = ''\<newline>        You are an expert content organizer. Analyze the following content and provide a single, most relevant category and a list of 2-4 relevant tags.\<newline>        \<newline>        Available Categories: Work, Personal, Learning, Health, Finance, Travel, Technology, Entertainment, News, Reference.\<newline>        If none of these fit well, you can suggest a new, simple, one-word category.\<newline>        Tags should be lowercase, single words.\<newline>\<newline>        Content to analyze:\<newline>    ''\<close>

definition categorize_schema :: schema where
  "categorize_schema =
     SObject [(''category'', SString), (''tags'', SArray SString)] [''category'', ''tags'']"

text \<open>The \<^verbatim>\<open>switch (item.type)\<close> of \<^verbatim>\<open>categorizeAndTagContent\<close>: the model to ask
  and the contents to send, or the exception.\<close>

definition categorize_contents :: "obj \<Rightarrow> error + string \<times> contents" where
  "categorize_contents item =
     (if map_of item ''type'' = Some (JStr ''text'') then
        (case map_of item ''content'' of
           Some (JStr s) \<Rightarrow>
             Inr (''gemini-2.5-pro'',
                  Prompt (basePrompt @ [CHR 0x0A] @ ''Type: Text Content'' @ [CHR 0x0A]
                          @ ''Content: '' @ [CHR 0x22] @ take 2000 s @ ''...'' @ [CHR 0x22]))
         | _ \<Rightarrow> Inl TypeError)
      else if map_of item ''type'' = Some (JStr ''image'')
              \<or> map_of item ''type'' = Some (JStr ''ai_image'') then
        (if \<not> truthy (map_of item ''mimeType'') then Inl MimeTypeRequired
         else bind_e (base64ToGenerativePart (map_of item ''content'') (map_of item ''mimeType''))
                (\<lambda>imagePart.
                   Inr (''gemini-2.5-flash'',
                        Parts [imagePart,
                               TextPart (basePrompt @ [CHR 0x0A]
                                 @ ''Type: Image. Describe the image, then provide a category and tags for it.'')])))
      else Inl (UnsupportedContentType (map_of item ''type'')))"

definition categorizeAndTagContent :: "env \<Rightarrow> obj \<Rightarrow> json io" where
  "categorizeAndTagContent env item =
     io_bind (getAi env) (\<lambda>_.
     io_bind (io_lift (categorize_contents item)) (\<lambda>(model, contents).
     io_bind (io_lift (generateContent env
       \<lparr>req_model = model,
        req_contents = contents,
        req_config = \<lparr>responseMimeType = Some ''application/json'',
                      responseSchema = Some categorize_schema,
                      tools = []\<rparr>\<rparr>)) (\<lambda>text.
     io_lift (case JSON_parse env text of None \<Rightarrow> Inl SyntaxError | Some v \<Rightarrow> Inr v))))"

text \<open>
  The same function in its two halves: what runs when it is called (the client, the
  \<^verbatim>\<open>switch\<close>, the request sent at
  \<^verbatim>\<open>await ai.models.generateContent(...)\<close>) and what runs when the response is
  there.
\<close>

definition categorize_request :: "obj \<Rightarrow> error + request" where
  "categorize_request item =
     bind_e (categorize_contents item) (\<lambda>(model, contents).
       Inr \<lparr>req_model = model,
            req_contents = contents,
            req_config = \<lparr>responseMimeType = Some ''application/json'',
                          responseSchema = Some categorize_schema,
                          tools = []\<rparr>\<rparr>)"

definition categorizeAndTagContent_sent :: "env \<Rightarrow> obj \<Rightarrow> request io" where
  "categorizeAndTagContent_sent env item =
     io_bind (getAi env) (\<lambda>_. io_lift (categorize_request item))"

definition categorizeAndTagContent_answered :: "env \<Rightarrow> request \<Rightarrow> json io" where
  "categorizeAndTagContent_answered env req =
     io_bind (io_lift (generateContent env req)) (\<lambda>text.
     io_lift (case JSON_parse env text of None \<Rightarrow> Inl SyntaxError | Some v \<Rightarrow> Inr v))"

definition organize_schema :: schema where
  "organize_schema =
     SObject
       [(''organizedItems'',
         SArray (SObject [(''id'', SString), (''category'', SString), (''priority'', SInteger)]
                         [''id'', ''category'', ''priority'']))]
       [''organizedItems'']"




text \<open>\<^verbatim>\<open>summarizeContent(content, contentType)\<close>; the content is spliced into the
  prompt as \<^verbatim>\<open>${content}\<close>.\<close>

definition summary_prompt :: "string \<Rightarrow> string \<Rightarrow> string" where
  "summary_prompt what content =
     ''Please provide a concise summary of the following '' @ what
     @ ''. The summary should capture the key points and main ideas.''
     @ [CHR 0x0A, CHR 0x0A] @ ''Content:'' @ [CHR 0x0A] @ ''---'' @ [CHR 0x0A]
     @ content @ [CHR 0x0A] @ ''---''"

definition summarize_request :: "env \<Rightarrow> json option \<Rightarrow> string \<Rightarrow> request" where
  "summarize_request env content contentType =
     (if contentType = ''url'' then
        \<lparr>req_model = ''gemini-2.5-pro'',
         req_contents = Prompt (''Provide a concise summary of the main content found at this URL: ''
                                @ template (number_text env) content),
         req_config = no_config\<lparr>tools := [''googleSearch'']\<rparr>\<rparr>
      else if contentType = ''audio'' then
        \<lparr>req_model = ''gemini-2.5-flash'',
         req_contents = Prompt (summary_prompt ''transcribed audio''
                                  (template (number_text env) content)),
         req_config = no_config\<rparr>
      else
        \<lparr>req_model = ''gemini-2.5-flash'',
         req_contents = Prompt (summary_prompt ''text'' (template (number_text env) content)),
         req_config = no_config\<rparr>)"

definition summarizeContent :: "env \<Rightarrow> json option \<Rightarrow> string \<Rightarrow> string io" where
  "summarizeContent env content contentType =
     io_bind (getAi env) (\<lambda>_.
     io_lift (generateContent env (summarize_request env content contentType)))"

text \<open>Its two halves: up to the request sent at
  \<^verbatim>\<open>await ai.models.generateContent(...)\<close>, and from the response on.\<close>

definition summarizeContent_sent :: "env \<Rightarrow> json option \<Rightarrow> string \<Rightarrow> request io" where
  "summarizeContent_sent env content contentType =
     io_bind (getAi env) (\<lambda>_. io_ret (summarize_request env content contentType))"

definition summarizeContent_answered :: "env \<Rightarrow> request \<Rightarrow> string io" where
  "summarizeContent_answered env req = io_lift (generateContent env req)"

text \<open>Conformance of a value to a response schema: the types agree and every required
  name of an object is there.\<close>

fun conforms :: "schema \<Rightarrow> json \<Rightarrow> bool" where
  "conforms SString v = (case v of JStr s \<Rightarrow> True | _ \<Rightarrow> False)"
| "conforms SInteger v = (case v of JNum n \<Rightarrow> True | _ \<Rightarrow> False)"
| "conforms (SArray sch) v = (case v of JArr xs \<Rightarrow> list_all (conforms sch) xs | _ \<Rightarrow> False)"
| "conforms (SObject props required) v =
     (case v of
        JObj kvs \<Rightarrow>
          list_all (\<lambda>k. k \<in> fst ` set kvs) required
          \<and> list_all (\<lambda>(k, sch). case map_of kvs k of None \<Rightarrow> True | Some x \<Rightarrow> conforms sch x) props
      | _ \<Rightarrow> False)"

section \<open>The content store gateway (supabaseService)\<close>

text \<open>
  The remote table is a map from \<^verbatim>\<open>id\<close> to row. The single-row writes behave as
  the gateway's calls name them: \<^verbatim>\<open>update(...).eq('id', id).select().single()\<close>
  changes the columns it is given on the one row with that id and fails when there is no
  such row (the store client's error \<^verbatim>\<open>PGRST116\<close> of \<^verbatim>\<open>single()\<close>);
  \<^verbatim>\<open>insert(row)\<close> stores the row the store makes of it, under the id the store
  assigns, which must be new. A column that a request does not name keeps its value.
  Whether the store accepts such a request at all is \<open>store_refuses\<close>. The batch write
  \<^verbatim>\<open>upsert(rows)\<close> is the store's own: its answer and its effect on the table are
  the parameter \<open>store_upsert\<close>.
\<close>

definition without :: "string list \<Rightarrow> obj \<Rightarrow> obj" where
  "without ks ob = filter (\<lambda>kv. fst kv \<notin> set ks) ob"

definition set_defined :: "string \<Rightarrow> json option \<Rightarrow> obj \<Rightarrow> obj" where
  "set_defined k v ob = (case v of None \<Rightarrow> ob | Some x \<Rightarrow> AList.update k x ob)"

definition fromSupabase :: "obj \<Rightarrow> obj" where
  "fromSupabase item =
     set_prop ''mimeType'' (map_of item ''mime_type'')
       (set_prop ''aiAnalysis'' (map_of item ''ai_analysis'')
         (set_prop ''createdAt'' (map_of item ''created_at'')
           (without [''created_at'', ''ai_analysis'', ''mime_type''] item)))"

definition toSupabase :: "obj \<Rightarrow> obj" where
  "toSupabase item =
     set_defined ''mime_type'' (map_of item ''mimeType'')
       (set_defined ''ai_analysis'' (map_of item ''aiAnalysis'')
         (set_defined ''created_at'' (map_of item ''createdAt'')
           (without [''createdAt'', ''aiAnalysis'', ''mimeType''] item)))"

definition getUserId :: "env \<Rightarrow> error + string" where
  "getUserId env = (case session_user env of None \<Rightarrow> Inl NotAuthenticated | Some u \<Rightarrow> Inr u)"

definition fetchContentItems :: "env \<Rightarrow> obj list io" where
  "fetchContentItems env w =
     (case store_refuses env Select (rows w) of
        Some e \<Rightarrow> (Inl e, w)
      | None \<Rightarrow> (Inr (map fromSupabase (store_select env (rows w))), w))"

definition addContentItem :: "env \<Rightarrow> obj \<Rightarrow> obj io" where
  "addContentItem env item w =
     (case getUserId env of
        Inl e \<Rightarrow> (Inl e, w)
      | Inr userId \<Rightarrow>
          (let itemToAdd = AList.update ''user_id'' (JStr userId) (toSupabase item) in
           case store_refuses env (Insert itemToAdd) (rows w) of
             Some e \<Rightarrow> (Inl e, w)
           | None \<Rightarrow>
               (let row = store_new_row env itemToAdd (rows w) in
                case map_of row ''id'' of
                  None \<Rightarrow> (Inl (StoreError ''no id''), w)
                | Some i \<Rightarrow>
                    (if rows w i \<noteq> None then (Inl (StoreError ''duplicate key''), w)
                     else (Inr (fromSupabase row), w\<lparr>rows := (rows w)(i \<mapsto> row)\<rparr>)))))"

definition updateContentItem :: "env \<Rightarrow> obj \<Rightarrow> obj io" where
  "updateContentItem env updatedItem w =
     (let id = map_of updatedItem ''id'';
          updateData = without [''id''] updatedItem;
          itemToUpdate = toSupabase updateData
      in case store_refuses env (Update id itemToUpdate) (rows w) of
           Some e \<Rightarrow> (Inl e, w)
         | None \<Rightarrow>
             (case id of
                None \<Rightarrow> (Inl (StoreError ''PGRST116''), w)
              | Some i \<Rightarrow>
                  (case rows w i of
                     None \<Rightarrow> (Inl (StoreError ''PGRST116''), w)
                   | Some old \<Rightarrow>
                       (let row = AList.merge old itemToUpdate in
                        (Inr (fromSupabase row), w\<lparr>rows := (rows w)(i \<mapsto> row)\<rparr>)))))"

text \<open>\<^verbatim>\<open>updateMultipleContentItems(updates)\<close>: one \<^verbatim>\<open>upsert\<close> of the mapped
  updates; the store's error, if any, is thrown.\<close>

definition updateMultipleContentItems :: "env \<Rightarrow> obj list \<Rightarrow> unit io" where
  "updateMultipleContentItems env updates w =
     (let updatesForSupabase = map toSupabase updates in
      case store_upsert env updatesForSupabase (rows w) of
        (Some e, t) \<Rightarrow> (Inl e, w\<lparr>rows := t\<rparr>)
      | (None, t) \<Rightarrow> (Inr (), w\<lparr>rows := t\<rparr>))"

subsection \<open>The live subscription\<close>

text \<open>
  \<^verbatim>\<open>subscribeToContentItems(callback)\<close> starts a fetch whose result goes to the
  callback, opens a channel whose handler starts another such fetch on every change of
  the table, and returns a handle that removes the channel. The state of one
  subscription: whether the channel is there, how many fetches are in flight (started,
  their promise not settled), and the snapshots the callback has been given. A removed
  channel calls its handler no more (the store's client does that); a fetch that fails
  calls nothing (its rejection has no handler).
\<close>

record subscription =
  channel :: bool
  in_flight :: nat
  delivered :: "obj list list"

datatype sub_event = Change | Settle "error + obj list" | Unsubscribe

definition subscribeToContentItems :: subscription where
  "subscribeToContentItems = \<lparr>channel = True, in_flight = 1, delivered = []\<rparr>"

fun sub_step :: "sub_event \<Rightarrow> subscription \<Rightarrow> subscription" where
  "sub_step Change s = (if channel s then s\<lparr>in_flight := in_flight s + 1\<rparr> else s)"
| "sub_step (Settle r) s =
     (if in_flight s = 0 then s
      else (case r of
              Inl e \<Rightarrow> s\<lparr>in_flight := in_flight s - 1\<rparr>
            | Inr items \<Rightarrow> s\<lparr>in_flight := in_flight s - 1, delivered := delivered s @ [items]\<rparr>))"
| "sub_step Unsubscribe s = s\<lparr>channel := False\<rparr>"

section \<open>The handlers of the application\<close>

subsection \<open>Adding an item and enriching it\<close>

text \<open>\<^verbatim>\<open>new File([blob], "audio." + newItem.mimeType.split('/')[1], { type: newItem.mimeType })\<close>.
  The constructor keeps a type of printable ASCII characters in lower case and replaces
  any other type by the empty text.\<close>

definition file_type_of :: "string \<Rightarrow> string" where
  "file_type_of s =
     (if list_all (\<lambda>c. (32::nat) \<le> of_char c \<and> of_char c \<le> (126::nat)) s
      then js_toLowerCase s else [])"

definition audio_file :: "json option \<Rightarrow> blob \<Rightarrow> error + jsfile" where
  "audio_file mimeType blob =
     (case mimeType of
        Some (JStr s) \<Rightarrow>
          Inr \<lparr>file_name = ''audio.'' @ (case nth_opt (js_split CHR ''/'' s) 1 of
                                            None \<Rightarrow> ''undefined'' | Some t \<Rightarrow> t),
               file_type = file_type_of s,
               file_blob = blob\<rparr>
      | _ \<Rightarrow> Inl TypeError)"

text \<open>\<^verbatim>\<open>if (transcription) updatedItem.transcription = transcription\<close>: a string is set
  when it is not empty.\<close>

definition set_if_truthy :: "string \<Rightarrow> string option \<Rightarrow> obj \<Rightarrow> obj" where
  "set_if_truthy k v ob =
     (case v of
        None \<Rightarrow> ob
      | Some s \<Rightarrow> if s \<noteq> [] then AList.update k (JStr s) ob else ob)"

text \<open>
  The end of the enrichment block, from
  \<^verbatim>\<open>const { category, tags } = await geminiService.categorizeAndTagContent(contentToAnalyze)\<close>
  on: the answer is taken apart, the tags are merged, the result is written back.
  \<open>categorizing\<close> is the awaited call: the gateway function as a whole, or its second
  half when its first half ran before.
\<close>

definition write_back ::
    "env \<Rightarrow> obj \<Rightarrow> obj \<Rightarrow> string option \<Rightarrow> string option \<Rightarrow> json io \<Rightarrow> unit io" where
  "write_back env newItem contentToAnalyze transcription summary categorizing =
     io_bind (io_log (CategorizeAndTagContent contentToAnalyze) categorizing) (\<lambda>res.
     io_bind (io_lift (get_prop (Some res) ''category'')) (\<lambda>category.
     io_bind (io_lift (get_prop (Some res) ''tags'')) (\<lambda>tags.
     io_bind (io_lift (merge_tags (map_of newItem ''tags'') tags)) (\<lambda>merged.
     (let updatedItem =
            set_if_truthy ''summary'' summary
              (set_if_truthy ''transcription'' transcription
                 (mk_obj [(''id'', map_of newItem ''id''),
                          (''category'', category),
                          (''tags'', Some (JArr merged))]))
      in io_bind (io_log (UpdateContentItem updatedItem) (updateContentItem env updatedItem))
           (\<lambda>_. io_ret ()))))))"

text \<open>The block for an audio item, from \<^verbatim>\<open>await fetch(newItem.content)\<close> on.\<close>

definition enrich_audio :: "env \<Rightarrow> obj \<Rightarrow> unit io" where
  "enrich_audio env newItem =
     io_bind (io_log (Fetch (map_of newItem ''content''))
                (io_lift (fetch_blob env (map_of newItem ''content'')))) (\<lambda>blob.
     io_bind (io_lift (audio_file (map_of newItem ''mimeType'') blob)) (\<lambda>f.
     io_bind (io_log (TranscribeAudio f) (transcribeAudio env f)) (\<lambda>transcription.
     write_back env newItem
       (AList.update ''type'' (JStr ''text'')
          (AList.update ''content'' (JStr transcription) newItem))
       (Some transcription) None
       (categorizeAndTagContent env
          (AList.update ''type'' (JStr ''text'')
             (AList.update ''content'' (JStr transcription) newItem))))))"

text \<open>The block for a link, from
  \<^verbatim>\<open>await geminiService.summarizeContent(newItem.content, 'url')\<close> on; \<open>summarizing\<close>
  is the awaited call.\<close>

definition enrich_url :: "env \<Rightarrow> obj \<Rightarrow> string io \<Rightarrow> unit io" where
  "enrich_url env newItem summarizing =
     io_bind (io_log (SummarizeContent (map_of newItem ''content'') ''url'') summarizing)
       (\<lambda>summary.
     write_back env newItem
       (AList.update ''type'' (JStr ''text'')
          (AList.update ''content'' (JStr summary) newItem))
       None (Some summary)
       (categorizeAndTagContent env
          (AList.update ''type'' (JStr ''text'')
             (AList.update ''content'' (JStr summary) newItem))))"

text \<open>The body of the block's \<^verbatim>\<open>try\<close>, as it is written, from its first line to
  its last.\<close>

definition enrich :: "env \<Rightarrow> obj \<Rightarrow> unit io" where
  "enrich env newItem =
     (if map_of newItem ''type'' = Some (JStr ''audio'') then enrich_audio env newItem
      else if map_of newItem ''type'' = Some (JStr ''url'') then
        enrich_url env newItem (summarizeContent env (map_of newItem ''content'') ''url'')
      else write_back env newItem newItem None None (categorizeAndTagContent env newItem))"

text \<open>
  What of the block runs inside the handler: for an audio item nothing that the world
  sees (the fetch is started); for any other item the first half of the gateway function
  that the block calls first, which may create the AI client. The block is then left at
  its first \<^verbatim>\<open>await\<close>.
\<close>

definition start_enrichment :: "env \<Rightarrow> obj \<Rightarrow> world \<Rightarrow> task \<times> world" where
  "start_enrichment env newItem w =
     (if map_of newItem ''type'' = Some (JStr ''audio'') then (AwaitFetch newItem, w)
      else if map_of newItem ''type'' = Some (JStr ''url'') then
        (case summarizeContent_sent env (map_of newItem ''content'') ''url'' w of
           (sent, w') \<Rightarrow> (AwaitSummary newItem sent, w'))
      else
        (case categorizeAndTagContent_sent env newItem w of
           (sent, w') \<Rightarrow> (AwaitCategories newItem sent, w')))"

text \<open>The rest of the block, run when what it awaits has settled.\<close>

fun resume :: "env \<Rightarrow> task \<Rightarrow> unit io" where
  "resume env (AwaitFetch newItem) = enrich_audio env newItem"
| "resume env (AwaitSummary newItem sent) =
     enrich_url env newItem (io_bind (io_lift sent) (summarizeContent_answered env))"
| "resume env (AwaitCategories newItem sent) =
     write_back env newItem newItem None None
       (io_bind (io_lift sent) (categorizeAndTagContent_answered env))"

text \<open>
  \<^verbatim>\<open>handleAddItem\<close>: the item is added; on success the enrichment block is called
  and not awaited, so the handler returns with the block left at its first
  \<^verbatim>\<open>await\<close>.
\<close>

definition handleAddItem :: "env \<Rightarrow> obj \<Rightarrow> world \<Rightarrow> world" where
  "handleAddItem env itemData w =
     (case io_log (AddContentItem itemData) (addContentItem env itemData) w of
        (Inl err, w') \<Rightarrow>
          w'\<lparr>console := console w' @ [err],
             message := Notice ''Could not add your content. Please try again.''\<rparr>
      | (Inr newItem, w') \<Rightarrow>
          (case start_enrichment env newItem w' of
             (t, w'') \<Rightarrow> w''\<lparr>tasks := tasks w'' @ [t]\<rparr>))"

text \<open>
  The event loop resumes a pending task, the one at place \<open>i\<close>; the block's own
  \<^verbatim>\<open>catch\<close> gives an error to the console and to nothing else. A resumed task runs to
  its end: what other handlers do between its later \<^verbatim>\<open>await\<close>s is not followed.
\<close>

definition run_task :: "env \<Rightarrow> nat \<Rightarrow> world \<Rightarrow> world" where
  "run_task env i w =
     (if i < length (tasks w) then
        (case resume env (tasks w ! i) (w\<lparr>tasks := take i (tasks w) @ drop (Suc i) (tasks w)\<rparr>) of
           (Inl aiError, w') \<Rightarrow> w'\<lparr>console := console w' @ [aiError]\<rparr>
         | (Inr u, w') \<Rightarrow> w')
      else w)"

subsection \<open>Organizing all items\<close>



text \<open>The callback of \<^verbatim>\<open>result.organizedItems.map\<close>: one update for one element of
  the model's answer.\<close>

definition organized_priority :: "(int \<Rightarrow> string) \<Rightarrow> json option \<Rightarrow> int option" where
  "organized_priority nt p =
     (case p of
        None \<Rightarrow> None
      | Some JNull \<Rightarrow> None
      | Some v \<Rightarrow> parseInt10 (js_String nt v))"






section \<open>A sample world\<close>

text \<open>
  Concrete collaborators, used to run the model: a model that answers a categorization
  request with a category and two tags, an organizer request with a priority for one
  item, and any other request with a line of plain text; a platform that is only ever
  asked for the text of \<open>10\<^sup>2\<^sup>1\<close>; a store that accepts every request, assigns the
  id \<^verbatim>\<open>"1"\<close> to a new row and, on an upsert, changes the columns it is given on the
  row with the id and creates the row when there is none.
\<close>

definition upsert_row :: "obj \<Rightarrow> table \<Rightarrow> table" where
  "upsert_row r t =
     (case map_of r ''id'' of
        None \<Rightarrow> t
      | Some i \<Rightarrow> t(i \<mapsto> (case t i of None \<Rightarrow> r | Some old \<Rightarrow> AList.merge old r)))"

definition sample_upsert :: "obj list \<Rightarrow> table \<Rightarrow> error option \<times> table" where
  "sample_upsert rs t = (None, fold upsert_row rs t)"

definition sample_category_text :: string where
  \<open>sample_category_text = ''{"category":"Work","tags":["idea","work"]}''\<close>

definition sample_category :: json where
  "sample_category = JObj [(''category'', JStr ''Work''), (''tags'', JArr [JStr ''idea'', JStr ''work''])]"

definition sample_organized_text :: string where
  \<open>sample_organized_text = ''{"organizedItems":[{"id":"1","category":"Work","priority":3}]}''\<close>

definition sample_organized :: json where
  "sample_organized =
     JObj [(''organizedItems'',
            JArr [JObj [(''id'', JStr ''1''), (''category'', JStr ''Work''), (''priority'', JNum 3)]])]"

definition sample_env :: env where
  "sample_env =
     \<lparr>API_KEY = Some ''key'',
      generateContent = (\<lambda>req.
        if responseSchema (req_config req) = Some categorize_schema then Inr sample_category_text
        else if responseSchema (req_config req) = Some organize_schema then Inr sample_organized_text
        else Inr ''hello world''),
      JSON_parse = (\<lambda>s.
        if s = sample_category_text then Some sample_category
        else if s = sample_organized_text then Some sample_organized
        else None),
      number_text = (\<lambda>n. ''1e+21''),
      fetch_blob = (\<lambda>url. Inr ''RIFF''),
      readAsDataURL = (\<lambda>f. Inr (Some (''data:'' @ file_type f @ '';base64,UklGRg==''))),
      session_user = Some ''u1'',
      store_refuses = (\<lambda>req t. None),
      store_new_row = (\<lambda>item t.
        AList.update ''created_at'' (JStr ''2025-01-01T00:00:00Z'')
          (AList.update ''id'' (JStr ''1'') item)),
      store_select = (\<lambda>t. case t (JStr ''1'') of None \<Rightarrow> [] | Some r \<Rightarrow> [r]),
      store_upsert = sample_upsert\<rparr>"

definition empty_world :: world where
  "empty_world =
     \<lparr>ai = False, rows = (\<lambda>k. None), calls = [], tasks = [], message = Quiet, console = []\<rparr>"


definition url_item :: obj where
  "url_item = [(''id'', JStr ''1''), (''type'', JStr ''url''), (''content'', JStr ''https://example.com'')]"

definition text_item :: obj where
  "text_item = [(''id'', JStr ''1''), (''type'', JStr ''text''), (''content'', JStr ''Buy milk'')]"

text \<open>A world whose table holds the items \<^verbatim>\<open>"1"\<close> and \<^verbatim>\<open>"2"\<close>.\<close>

definition second_item :: obj where
  "second_item = [(''id'', JStr ''2''), (''type'', JStr ''text''), (''content'', JStr ''Call Bob'')]"

definition two_rows :: world where
  "two_rows =
     empty_world\<lparr>rows :=
       (\<lambda>k. if k = JStr ''1'' then Some text_item
            else if k = JStr ''2'' then Some second_item
            else None)\<rparr>"

section \<open>Reading the call log\<close>

fun event_name :: "event \<Rightarrow> string" where
  "event_name (Fetch url r) = ''fetch''"
| "event_name (TranscribeAudio f r) = ''transcribeAudio''"
| "event_name (SummarizeContent c k r) = ''summarizeContent''"
| "event_name (CategorizeAndTagContent item r) = ''categorizeAndTagContent''"
| "event_name (OrganizeContent items r) = ''organizeContent''"
| "event_name (AddContentItem item r) = ''addContentItem''"
| "event_name (UpdateContentItem item r) = ''updateContentItem''"
| "event_name (UpdateMultipleContentItems items r) = ''updateMultipleContentItems''"

text \<open>The calls logged between two worlds.\<close>

definition new_calls :: "world \<Rightarrow> world \<Rightarrow> event list" where
  "new_calls w w' = drop (length (calls w)) (calls w')"

text \<open>The second world is the first with some calls logged; the pending tasks, the
  message and the console are the same.\<close>

definition extends :: "world \<Rightarrow> event list \<Rightarrow> world \<Rightarrow> bool" where
  "extends w evs w' =
     (calls w' = calls w @ evs \<and> tasks w' = tasks w \<and> message w' = message w
      \<and> console w' = console w)"

text \<open>A computation that changes nothing of the world but the AI gateway's client
  variable.\<close>

definition only_ai :: "'a io \<Rightarrow> bool" where
  "only_ai m = (\<forall>w. \<exists>b. snd (m w) = w\<lparr>ai := b\<rparr>)"




definition five_tags_text :: string where
  \<open>five_tags_text = ''{"category":"Work","tags":["Alpha","b","c","d","e"]}''\<close>

definition five_tags_env :: env where
  "five_tags_env =
     sample_env\<lparr>generateContent := (\<lambda>req. Inr five_tags_text),
                JSON_parse := (\<lambda>s.
                  if s = five_tags_text
                  then Some (JObj [(''category'', JStr ''Work''),
                         (''tags'', JArr [JStr ''Alpha'', JStr ''b'', JStr ''c'', JStr ''d'', JStr ''e''])])
                  else None)\<rparr>"




text \<open>A store whose table requires the columns \<^verbatim>\<open>type\<close> and \<^verbatim>\<open>content\<close>: an
  upsert with a row that is new to the table and lacks one of them is refused as a whole
  (the store's error \<^verbatim>\<open>23502\<close>, a missing required value).\<close>

definition demanding_upsert :: "obj list \<Rightarrow> table \<Rightarrow> error option \<times> table" where
  "demanding_upsert rs t =
     (if list_ex (\<lambda>r. (case map_of r ''id'' of None \<Rightarrow> True | Some i \<Rightarrow> t i = None)
                       \<and> (map_of r ''type'' = None \<or> map_of r ''content'' = None)) rs
      then (Some (StoreError ''23502''), t)
      else (None, fold upsert_row rs t))"

definition demanding_env :: env where
  "demanding_env = sample_env\<lparr>store_upsert := demanding_upsert\<rparr>"

text \<open>A client without an API key, a form submission for a link, and the item the
  sample store makes of it.\<close>

definition keyless_env :: env where
  "keyless_env = sample_env\<lparr>API_KEY := None\<rparr>"

definition url_data :: obj where
  "url_data = [(''type'', JStr ''url''), (''content'', JStr ''https://example.com'')]"


definition url_created :: obj where
  "url_created =
     [(''type'', JStr ''url''), (''content'', JStr ''https://example.com''),
      (''user_id'', JStr ''u1''), (''id'', JStr ''1''),
      (''createdAt'', JStr ''2025-01-01T00:00:00Z'')]"

section \<open>The specification's words\<close>

text \<open>The result shape the specification gives for \<^verbatim>\<open>categorizeAndTagContent\<close>: a
  string category and at most four tags, each a string that lower-casing leaves as it is.\<close>

definition at_most_four_lowercase_tags :: "json \<Rightarrow> bool" where
  "at_most_four_lowercase_tags res =
     (case get_prop (Some res) ''category'' of
        Inr (Some (JStr c)) \<Rightarrow>
          (case get_prop (Some res) ''tags'' of
             Inr (Some (JArr ts)) \<Rightarrow>
               length ts \<le> 4
               \<and> list_all (\<lambda>t. case t of JStr s \<Rightarrow> js_toLowerCase s = s | _ \<Rightarrow> False) ts
           | _ \<Rightarrow> False)
      | _ \<Rightarrow> False)"


section \<open>Properties of the tag merges\<close>


lemma find_upt_least:
  assumes "i < n" "P i"
  shows "\<exists>j. find P [0..<n] = Some j \<and> j \<le> i \<and> P j \<and> (\<forall>m<j. \<not> P m)"
proof -
  obtain j where f: "find P [0..<n] = Some j"
    using assms by (cases "find P [0..<n]") (auto simp: find_None_iff)
  then obtain k where k: "k < n" "P ([0..<n] ! k)" "j = [0..<n] ! k" "\<forall>m<k. \<not> P ([0..<n] ! m)"
    unfolding find_Some_iff by auto
  have jk: "j = k" using k(1,3) by simp
  have "\<forall>m<j. \<not> P m"
  proof (intro allI impI)
    fix m assume "m < j"
    then have "m < k" "m < n" using jk k(1) by auto
    then show "\<not> P m" using k(4) by fastforce
  qed
  moreover have "P j" using k(1,2) jk by simp
  moreover have "j \<le> i" using calculation assms(2) by (meson not_le_imp_less)
  ultimately show ?thesis using f by blast
qed

lemma indexOf_at_self:
  assumes "i < length a"
  shows "(indexOf_at a i = int i) = (\<forall>j<i. \<not> (primitive (a ! j) \<and> a ! j = a ! i))"
proof -
  have "strict_eq_at a i i" by (simp add: strict_eq_at_def)
  from find_upt_least[OF assms, of "\<lambda>j. strict_eq_at a j i", OF this]
  obtain j where f: "find (\<lambda>j. strict_eq_at a j i) [0..<length a] = Some j"
    and ji: "j \<le> i" and sj: "strict_eq_at a j i" and min: "\<forall>m<j. \<not> strict_eq_at a m i"
    by blast
  have idx: "indexOf_at a i = int j" using f by (simp add: indexOf_at_def)
  show ?thesis
  proof
    assume "indexOf_at a i = int i"
    then have "j = i" using idx by simp
    then show "\<forall>j<i. \<not> (primitive (a ! j) \<and> a ! j = a ! i)"
      using min unfolding strict_eq_at_def by blast
  next
    assume h: "\<forall>j<i. \<not> (primitive (a ! j) \<and> a ! j = a ! i)"
    have "j = i"
    proof (rule ccontr)
      assume n: "j \<noteq> i"
      then have "j < i" using ji by simp
      then have "\<not> (primitive (a ! j) \<and> a ! j = a ! i)" using h by blast
      then show False using sj n unfolding strict_eq_at_def by blast
    qed
    then show "indexOf_at a i = int i" using idx by simp
  qed
qed

lemma dedup_distinct: "distinct (filter primitive (dedup a))"
proof -
  define ps where "ps = filter (\<lambda>i. primitive (a ! i)) (filter (\<lambda>i. indexOf_at a i = int i) [0..<length a])"
  have eq: "filter primitive (dedup a) = map (\<lambda>i. a ! i) ps"
    unfolding ps_def dedup_def filter_map comp_def ..
  have d: "distinct ps" unfolding ps_def by (intro distinct_filter) simp
  have mem: "\<And>x. x \<in> set ps \<Longrightarrow> x < length a \<and> indexOf_at a x = int x \<and> primitive (a ! x)"
    unfolding ps_def by simp
  have inj: "inj_on (\<lambda>i. a ! i) (set ps)"
  proof (rule inj_onI)
    fix x y assume x: "x \<in> set ps" and y: "y \<in> set ps" and e: "a ! x = a ! y"
    have kx: "\<forall>j<x. \<not> (primitive (a ! j) \<and> a ! j = a ! x)"
      using mem[OF x] indexOf_at_self[of x a] by blast
    have ky: "\<forall>j<y. \<not> (primitive (a ! j) \<and> a ! j = a ! y)"
      using mem[OF y] indexOf_at_self[of y a] by blast
    have px: "primitive (a ! x)" "primitive (a ! y)" using mem[OF x] mem[OF y] by blast+
    show "x = y"
    proof (rule ccontr)
      assume "x \<noteq> y"
      then consider "x < y" | "y < x" by linarith
      then show False
      proof cases
        case 1 then show False using ky px e by metis
      next
        case 2 then show False using kx px e by metis
      qed
    qed
  qed
  show ?thesis unfolding eq using d inj by (simp only: distinct_map simp_thms)
qed


lemma merge_tags_dup_free:
  assumes "merge_tags old new = Inr ts"
  shows "dup_free (Some (JArr ts))"
proof -
  obtain xs ys where "ts = dedup (xs @ ys)"
    using assms by (auto simp: merge_tags_def bind_e_def split: sum.splits)
  then show ?thesis by (simp add: dedup_distinct)
qed

lemma map_of_mk_obj_tags:
  "map_of (mk_obj [(''id'', i), (''tags'', Some v)]) ''tags'' = Some v"
  by (cases i) simp_all

lemma handleAddTag_dup_free:
  assumes "dup_free (map_of item ''tags'')"
    and "fst (handleAddTag item key inp) = Inr (Some upd)"
  shows "dup_free (map_of upd ''tags'')"
proof (cases "map_of item ''tags''")
  case None
  with assms(2) show ?thesis
    by (auto simp: handleAddTag_def Let_def map_of_mk_obj_tags split: if_splits)
next
  case (Some v)
  show ?thesis
  proof (cases v)
    case JNull
    with Some assms(2) show ?thesis
      by (auto simp: handleAddTag_def Let_def map_of_mk_obj_tags split: if_splits)
  next
    case (JArr xs)
    with Some assms show ?thesis
      by (auto simp: handleAddTag_def Let_def map_of_mk_obj_tags
               split: if_splits bool.splits)
  qed (use Some assms(1) in auto)
qed

lemma shown_dup_free:
  assumes "list_all dup_free hist"
  shows "dup_free (shown age hist)"
proof (cases "hist = []")
  case True
  then show ?thesis by (simp add: shown_def)
next
  case False
  then have "0 < length hist" by simp
  then have "min age (length hist - 1) < length hist" by arith
  then have "dup_free (hist ! min age (length hist - 1))"
    using assms by (simp only: list_all_length)
  then show ?thesis using False by (simp add: shown_def)
qed

lemma apply_tag_op_dup_free:
  assumes "list_all dup_free hist"
  shows "list_all dup_free (apply_tag_op op hist)"
proof (cases op)
  case (UserAdd age inp)
  let ?item = "mk_obj [(''tags'', shown age hist)]"
  have t: "map_of ?item ''tags'' = shown age hist" by (cases "shown age hist") simp_all
  show ?thesis
  proof (cases "fst (handleAddTag ?item ''Enter'' inp)")
    case (Inl e)
    then show ?thesis using UserAdd assms by simp
  next
    case (Inr r)
    show ?thesis
    proof (cases r)
      case None
      then show ?thesis using Inr UserAdd assms by simp
    next
      case (Some upd)
      have "dup_free (map_of upd ''tags'')"
        using handleAddTag_dup_free[of ?item "''Enter''" inp upd]
          shown_dup_free[OF assms, of age] t Inr Some by simp
      then show ?thesis using Inr Some UserAdd assms by simp
    qed
  qed
next
  case (PipelineMerge new)
  show ?thesis
  proof (cases "merge_tags (created_with hist) new")
    case (Inl e)
    then show ?thesis using PipelineMerge assms by simp
  next
    case (Inr ts)
    then show ?thesis using PipelineMerge merge_tags_dup_free[OF Inr] assms by simp
  qed
qed

text \<open>
  C4. After any merge of an item's tags (an addition through the card's tag input, on
  the current tags or on an older value the card still shows, or the pipeline's merge of
  the model's tags into the tags the item was created with) the tags hold no entry
  twice: every value the tags ever hold is free of duplicates, for every sequence of
  such additions on an item whose tags were free of duplicates to begin with (a new item
  has none).
\<close>

theorem tags_never_duplicated:
  assumes "list_all dup_free hist"
  shows "list_all dup_free (fold apply_tag_op ops hist)"
  using assms
proof (induction ops arbitrary: hist)
  case Nil
  then show ?case by simp
next
  case (Cons op ops)
  then show ?case by (simp add: apply_tag_op_dup_free)
qed

text \<open>A new item without tags: the user adds a tag, the pipeline merges three tags of
  which two are the same, the user adds one of them again in capitals, and then adds a
  tag on a card that is one write behind.\<close>

theorem tags_never_duplicated_witness:
  "list_all dup_free [None]
   \<and> fold apply_tag_op
       [UserAdd 0 '' Work'', PipelineMerge (Some (JArr [JStr ''work'', JStr ''work'', JStr ''idea''])),
        UserAdd 0 ''IDEA'', UserAdd 1 ''new'']
       [None]
     = [Some (JArr [JStr ''work'', JStr ''new'']), Some (JArr [JStr ''work'', JStr ''idea'']),
        Some (JArr [JStr ''work'']), None]
   \<and> list_all dup_free
       (fold apply_tag_op
         [UserAdd 0 '' Work'', PipelineMerge (Some (JArr [JStr ''work'', JStr ''work'', JStr ''idea''])),
          UserAdd 0 ''IDEA'', UserAdd 1 ''new'']
         [None])"
proof -
  have h: "list_all dup_free [None]" by simp
  have e: "fold apply_tag_op
       [UserAdd 0 '' Work'', PipelineMerge (Some (JArr [JStr ''work'', JStr ''work'', JStr ''idea''])),
        UserAdd 0 ''IDEA'', UserAdd 1 ''new'']
       [None]
     = [Some (JArr [JStr ''work'', JStr ''new'']), Some (JArr [JStr ''work'', JStr ''idea'']),
        Some (JArr [JStr ''work'']), None]"
    by code_simp
  show ?thesis using h e tags_never_duplicated[OF h] by blast
qed

section \<open>Printing an integer and reading it back\<close>

lemma of_char_digit_char:
  assumes "d < 10"
  shows "of_char (digit_char d) = (48 + d :: nat)"
proof -
  have "d = 0 \<or> d = 1 \<or> d = 2 \<or> d = 3 \<or> d = 4 \<or> d = 5 \<or> d = 6 \<or> d = 7 \<or> d = 8 \<or> d = 9"
    using assms by arith
  then show ?thesis by (elim disjE) (simp_all add: digit_char_def)
qed

lemma digit_char_props:
  assumes "d < 10"
  shows "is_digit (digit_char d)" "digit_val (digit_char d) = int d" "\<not> is_space (digit_char d)"
    "digit_char d \<noteq> CHR ''-''" "digit_char d \<noteq> CHR ''+''"
proof -
  have o: "of_char (digit_char d) = (48 + d :: nat)" using assms by (rule of_char_digit_char)
  show "is_digit (digit_char d)" using o assms by (simp add: is_digit_def)
  show "digit_val (digit_char d) = int d" using o by (simp add: digit_val_def)
  have ne: "\<And>c. (of_char c :: nat) < 48 \<Longrightarrow> digit_char d \<noteq> c"
    using o by (metis add_lessD1 less_irrefl)
  have nb: "digit_char d \<noteq> CHR 0xA0"
  proof
    assume "digit_char d = CHR 0xA0"
    then have "of_char (digit_char d) = (160::nat)" by simp
    then show False using o assms by simp
  qed
  show "\<not> is_space (digit_char d)"
    unfolding is_space_def using ne nb by auto
  show "digit_char d \<noteq> CHR ''-''" using ne[of "CHR ''-''"] by simp
  show "digit_char d \<noteq> CHR ''+''" using ne[of "CHR ''+''"] by simp
qed

lemma show_digits_digits: "0 \<le> n \<Longrightarrow> \<forall>c \<in> set (show_digits n). is_digit c"
proof (induction n rule: show_digits.induct)
  case (1 n)
  show ?case
  proof (cases "n < 10")
    case True
    then show ?thesis using 1(2) by (subst show_digits.simps) (simp add: digit_char_props)
  next
    case False
    then show ?thesis using 1 by (subst show_digits.simps) (simp add: digit_char_props)
  qed
qed

lemma show_digits_hd:
  "0 \<le> n \<Longrightarrow> show_digits n \<noteq> [] \<and> hd (show_digits n) \<in> digit_char ` {..<10}"
proof (induction n rule: show_digits.induct)
  case (1 n)
  show ?case
  proof (cases "n < 10")
    case True
    then have "nat n < 10" by simp
    then show ?thesis using True by (subst (1 2) show_digits.simps) simp
  next
    case False
    then show ?thesis using 1 by (subst (1 2) show_digits.simps) simp
  qed
qed

lemma digits_val_append: "digits_val (xs @ [c]) = 10 * digits_val xs + digit_val c"
  by (simp add: digits_val_def)

lemma digits_val_show_digits: "0 \<le> n \<Longrightarrow> digits_val (show_digits n) = n"
proof (induction n rule: show_digits.induct)
  case (1 n)
  show ?case
  proof (cases "n < 10")
    case True
    then show ?thesis using 1(2)
      by (subst show_digits.simps) (simp add: digits_val_def digit_char_props)
  next
    case False
    then show ?thesis using 1
      by (subst show_digits.simps) (simp add: digits_val_append digit_char_props)
  qed
qed

lemma parseInt10_show_digits:
  assumes "0 \<le> n"
  shows "parseInt10 (show_digits n) = Some n"
proof -
  obtain d where d: "d < 10" "hd (show_digits n) = digit_char d" and ne: "show_digits n \<noteq> []"
    using show_digits_hd[OF assms] by auto
  have dw: "dropWhile is_space (show_digits n) = show_digits n"
    using ne d digit_char_props(3)[OF d(1)] by (cases "show_digits n") auto
  have tw: "takeWhile is_digit (show_digits n) = show_digits n"
    using show_digits_digits[OF assms] by (simp add: takeWhile_eq_all_conv)
  show ?thesis
    using ne d digit_char_props(4,5)[OF d(1)]
    by (simp add: parseInt10_def dw tw Let_def digits_val_show_digits[OF assms])
qed

lemma parseInt10_neg_show_digits:
  assumes "0 \<le> n"
  shows "parseInt10 (CHR ''-'' # show_digits n) = Some (- n)"
proof -
  have sp: "\<not> is_space CHR ''-''" by (simp add: is_space_def)
  have tw: "takeWhile is_digit (show_digits n) = show_digits n"
    using show_digits_digits[OF assms] by (simp add: takeWhile_eq_all_conv)
  have ne: "show_digits n \<noteq> []" using show_digits_hd[OF assms] by simp
  show ?thesis
    using sp ne by (simp add: parseInt10_def tw Let_def digits_val_show_digits[OF assms])
qed

lemma parseInt10_show_int: "parseInt10 (show_int n) = Some n"
  by (simp add: show_int_def parseInt10_show_digits parseInt10_neg_show_digits)

lemma parseInt10_js_String:
  "safe_integer n \<Longrightarrow> parseInt10 (js_String nt (JNum n)) = Some n"
  by (simp add: parseInt10_show_int)

text \<open>White space and letters beyond ASCII: a no-break space before the digits is
  skipped, and the capital E with acute accent (U+00C9) has its small letter (U+00E9).\<close>

lemma parseInt10_no_break_space: "parseInt10 [CHR 0xA0, CHR ''5''] = Some 5"
  by code_simp

lemma js_trim_no_break_space: "js_trim [CHR 0xA0, CHR ''a'', CHR 0xA0] = ''a''"
  by code_simp

lemma js_toLowerCase_accented: "js_toLowerCase [CHR 0xC9, CHR ''A'', CHR 0xD7] = [CHR 0xE9, CHR ''a'', CHR 0xD7]"
  by code_simp

section \<open>What the gateways leave alone\<close>


lemma only_ai_ret: "only_ai (io_ret x)"
  unfolding only_ai_def io_ret_def
proof
  fix w :: world
  have "snd (Inr x, w) = w\<lparr>ai := ai w\<rparr>" by simp
  then show "\<exists>b. snd (Inr x, w) = w\<lparr>ai := b\<rparr>" by blast
qed

lemma only_ai_lift: "only_ai (io_lift r)"
  unfolding only_ai_def io_lift_def
proof
  fix w :: world
  have "snd (r, w) = w\<lparr>ai := ai w\<rparr>" by simp
  then show "\<exists>b. snd (r, w) = w\<lparr>ai := b\<rparr>" by blast
qed

lemma only_ai_bind:
  assumes "only_ai m" and "\<And>x. only_ai (f x)"
  shows "only_ai (io_bind m f)"
  unfolding only_ai_def
proof
  fix w
  obtain b where b: "snd (m w) = w\<lparr>ai := b\<rparr>" using assms(1) unfolding only_ai_def by blast
  show "\<exists>c. snd (io_bind m f w) = w\<lparr>ai := c\<rparr>"
  proof (cases "fst (m w)")
    case (Inl e)
    then have "io_bind m f w = (Inl e, w\<lparr>ai := b\<rparr>)"
      using b by (cases "m w") (simp add: io_bind_def)
    then show ?thesis by auto
  next
    case (Inr x)
    then have e: "io_bind m f w = f x (w\<lparr>ai := b\<rparr>)"
      using b by (cases "m w") (simp add: io_bind_def)
    obtain c where "snd (f x (w\<lparr>ai := b\<rparr>)) = w\<lparr>ai := b\<rparr>\<lparr>ai := c\<rparr>"
      using assms(2)[of x] unfolding only_ai_def by blast
    then show ?thesis using e by auto
  qed
qed

lemma only_ai_getAi: "only_ai (getAi env)"
  unfolding only_ai_def
proof
  fix w
  show "\<exists>b. snd (getAi env w) = w\<lparr>ai := b\<rparr>"
  proof (cases "ai w")
    case True
    then have "snd (getAi env w) = w\<lparr>ai := ai w\<rparr>" by (simp add: getAi_def)
    then show ?thesis by blast
  next
    case False
    show ?thesis
    proof (cases "API_KEY env = None \<or> API_KEY env = Some []")
      case True
      then have "snd (getAi env w) = w\<lparr>ai := ai w\<rparr>" using False by (simp add: getAi_def)
      then show ?thesis by blast
    next
      case k: False
      then have "snd (getAi env w) = w\<lparr>ai := True\<rparr>" using False by (simp add: getAi_def)
      then show ?thesis by blast
    qed
  qed
qed

lemma only_ai_transcribeAudio: "only_ai (transcribeAudio env f)"
  unfolding transcribeAudio_def
  by (intro only_ai_bind only_ai_getAi only_ai_lift)

lemma only_ai_summarizeContent: "only_ai (summarizeContent env c k)"
  unfolding summarizeContent_def
  by (intro only_ai_bind only_ai_getAi only_ai_lift)

lemma only_ai_summarizeContent_sent: "only_ai (summarizeContent_sent env c k)"
  unfolding summarizeContent_sent_def
  by (intro only_ai_bind only_ai_getAi only_ai_ret)

lemma only_ai_summary_answered:
  "only_ai (io_bind (io_lift sent) (summarizeContent_answered env))"
  unfolding summarizeContent_answered_def
  by (intro only_ai_bind only_ai_lift)

lemma only_ai_categorizeAndTagContent_sent: "only_ai (categorizeAndTagContent_sent env item)"
  unfolding categorizeAndTagContent_sent_def
  by (intro only_ai_bind only_ai_getAi only_ai_lift)

lemma only_ai_categories_answered:
  "only_ai (io_bind (io_lift sent) (categorizeAndTagContent_answered env))"
  unfolding categorizeAndTagContent_answered_def
  by (intro only_ai_bind only_ai_lift)

lemma only_ai_categorizeAndTagContent: "only_ai (categorizeAndTagContent env item)"
  unfolding categorizeAndTagContent_def
  by (intro only_ai_bind only_ai_getAi only_ai_lift) (auto intro: only_ai_bind only_ai_lift)



section \<open>The enrichment pipeline, step by step\<close>


lemma io_bind_eq:
  "io_bind m f w = (case fst (m w) of Inl e \<Rightarrow> (Inl e, snd (m w)) | Inr x \<Rightarrow> f x (snd (m w)))"
  by (cases "m w") (simp add: io_bind_def split: sum.splits)

lemma io_log_eq:
  "io_log ev m w = (fst (m w), (snd (m w))\<lparr>calls := calls (snd (m w)) @ [ev (fst (m w))]\<rparr>)"
  by (cases "m w") (simp add: io_log_def)

lemma extends_refl: "extends w [] w"
  by (simp add: extends_def)

lemma extends_trans: "extends w xs w1 \<Longrightarrow> extends w1 ys w2 \<Longrightarrow> extends w (xs @ ys) w2"
  by (simp add: extends_def)

lemma io_log_only_ai:
  assumes "only_ai m"
  shows "fst (io_log ev m w) = fst (m w)"
    and "extends w [ev (fst (m w))] (snd (io_log ev m w))"
    and "rows (snd (io_log ev m w)) = rows w"
proof -
  obtain b where b: "snd (m w) = w\<lparr>ai := b\<rparr>" using assms unfolding only_ai_def by blast
  show "fst (io_log ev m w) = fst (m w)" by (simp add: io_log_eq)
  show "extends w [ev (fst (m w))] (snd (io_log ev m w))"
    by (simp add: io_log_eq b extends_def)
  show "rows (snd (io_log ev m w)) = rows w" by (simp add: io_log_eq b)
qed

lemma updateContentItem_frame:
  shows "extends w [] (snd (updateContentItem env u w))"
    and "fst (updateContentItem env u w) = Inl e \<Longrightarrow> snd (updateContentItem env u w) = w"
    and "rows (snd (updateContentItem env u w)) k \<noteq> rows w k \<Longrightarrow> map_of u ''id'' = Some k"
  by (auto simp: updateContentItem_def Let_def extends_def split: option.splits if_splits)

text \<open>The outcome of an update depends on the table only.\<close>

lemma updateContentItem_outcome:
  "rows w1 = rows w2 \<Longrightarrow> fst (updateContentItem env u w1) = fst (updateContentItem env u w2)"
  by (auto simp: updateContentItem_def Let_def split: option.splits)

lemma map_of_set_if_truthy:
  "map_of (set_if_truthy k v ob) k' =
     (if k' = k \<and> v \<noteq> None \<and> v \<noteq> Some [] then map_option JStr v else map_of ob k')"
  by (cases v) (auto simp: set_if_truthy_def update_conv')

lemma map_of_mk_obj3:
  assumes "a \<noteq> b" "a \<noteq> c" "b \<noteq> c"
  shows "map_of (mk_obj [(a, x), (b, y), (c, z)]) k =
           (if k = a then x else if k = b then y else if k = c then z else None)"
  using assms by (cases x; cases y; cases z) auto

lemma updatedItem_fields:
  fixes i c merged tr su
  defines "upd \<equiv> set_if_truthy ''summary'' su
              (set_if_truthy ''transcription'' tr
                 (mk_obj [(''id'', i), (''category'', c), (''tags'', Some (JArr merged))]))"
  shows "map_of upd ''id'' = i"
    and "map_of upd ''category'' = c"
    and "map_of upd ''tags'' = Some (JArr merged)"
    and "map_of upd ''transcription'' = (if tr = None \<or> tr = Some [] then None else map_option JStr tr)"
    and "map_of upd ''summary'' = (if su = None \<or> su = Some [] then None else map_option JStr su)"
  unfolding upd_def by (simp_all add: map_of_set_if_truthy map_of_mk_obj3)


lemma io_log_update:
  shows "fst (io_log ev (updateContentItem env u) w) = fst (updateContentItem env u w)"
    and "extends w [ev (fst (updateContentItem env u w))] (snd (io_log ev (updateContentItem env u) w))"
    and "rows (snd (io_log ev (updateContentItem env u) w)) = rows (snd (updateContentItem env u w))"
  using updateContentItem_frame(1)[of w env u]
  by (simp_all add: io_log_eq extends_def)

text \<open>The end of the block logs the categorization and, when it got that far, the one
  write-back; it touches no row but the new item's, and none when it fails.\<close>

lemma write_back_calls:
  fixes tr su :: "string option"
  assumes oa: "only_ai categorizing"
  defines "tx \<equiv> (if tr = None \<or> tr = Some [] then None else map_option JStr tr)"
    and "sx \<equiv> (if su = None \<or> su = Some [] then None else map_option JStr su)"
  shows "\<exists>evs. extends v evs (snd (write_back env newItem cta tr su categorizing v))
     \<and> (\<forall>e. fst (write_back env newItem cta tr su categorizing v) = Inl e
            \<longrightarrow> rows (snd (write_back env newItem cta tr su categorizing v)) = rows v)
     \<and> (\<forall>k. rows (snd (write_back env newItem cta tr su categorizing v)) k \<noteq> rows v k
            \<longrightarrow> map_of newItem ''id'' = Some k)
     \<and> ((\<exists>e. evs = [CategorizeAndTagContent cta (Inl e)]
              \<and> fst (categorizing v) = Inl e
              \<and> fst (write_back env newItem cta tr su categorizing v) = Inl e)
        \<or> (\<exists>res e. evs = [CategorizeAndTagContent cta (Inr res)]
              \<and> fst (categorizing v) = Inr res
              \<and> fst (write_back env newItem cta tr su categorizing v) = Inl e)
        \<or> (\<exists>res upd.
                evs = [CategorizeAndTagContent cta (Inr res),
                       UpdateContentItem upd (fst (updateContentItem env upd v))]
              \<and> fst (categorizing v) = Inr res
              \<and> fst (write_back env newItem cta tr su categorizing v) =
                  (case fst (updateContentItem env upd v) of
                     Inl e \<Rightarrow> Inl e | Inr row \<Rightarrow> Inr ())
              \<and> get_prop (Some res) ''category'' = Inr (map_of upd ''category'')
              \<and> map_of upd ''id'' = map_of newItem ''id''
              \<and> map_of upd ''transcription'' = tx
              \<and> map_of upd ''summary'' = sx))"
proof -
  let ?K = "write_back env newItem cta tr su categorizing"
  let ?C = "io_log (CategorizeAndTagContent cta) categorizing"
  let ?r = "fst (categorizing v)"
  let ?w1 = "snd (?C v)"
  have C1: "fst (?C v) = ?r"
    by (rule io_log_only_ai(1)[OF oa])
  have C2: "extends v [CategorizeAndTagContent cta ?r] ?w1"
    by (rule io_log_only_ai(2)[OF oa])
  have C3: "rows ?w1 = rows v"
    by (rule io_log_only_ai(3)[OF oa])
  show ?thesis
  proof (cases ?r)
    case (Inl e)
    then have "?K v = (Inl e, ?w1)"
      using C1 by (simp add: write_back_def io_bind_eq)
    then show ?thesis using Inl C2 C3
      by (intro exI[of _ "[CategorizeAndTagContent cta (Inl e)]"]) simp
  next
    case res: (Inr res)
    have stop: "?thesis" if "?K v = (Inl e, ?w1)" for e
      using that res C2 C3
      by (intro exI[of _ "[CategorizeAndTagContent cta (Inr res)]"]) simp
    show ?thesis
    proof (cases "get_prop (Some res) ''category''")
      case (Inl e)
      then have "?K v = (Inl e, ?w1)"
        using C1 res by (simp add: write_back_def io_bind_eq io_lift_def)
      then show ?thesis by (rule stop)
    next
      case c: (Inr c)
      show ?thesis
      proof (cases "get_prop (Some res) ''tags''")
        case (Inl e)
        then have "?K v = (Inl e, ?w1)"
          using C1 res c by (simp add: write_back_def io_bind_eq io_lift_def)
        then show ?thesis by (rule stop)
      next
        case tg: (Inr tg)
        show ?thesis
        proof (cases "merge_tags (map_of newItem ''tags'') tg")
          case (Inl e)
          then have "?K v = (Inl e, ?w1)"
            using C1 res c tg by (simp add: write_back_def io_bind_eq io_lift_def)
          then show ?thesis by (rule stop)
        next
          case m: (Inr merged)
          define upd where "upd = set_if_truthy ''summary'' su
              (set_if_truthy ''transcription'' tr
                 (mk_obj [(''id'', map_of newItem ''id''), (''category'', c),
                          (''tags'', Some (JArr merged))]))"
          let ?U = "io_log (UpdateContentItem upd) (updateContentItem env upd)"
          let ?u = "fst (updateContentItem env upd ?w1)"
          have uv: "?u = fst (updateContentItem env upd v)"
            by (rule updateContentItem_outcome[OF C3])
          have K: "?K v = (case ?u of Inl e \<Rightarrow> (Inl e, snd (?U ?w1))
                                   | Inr x \<Rightarrow> (Inr (), snd (?U ?w1)))"
            using C1 res c tg m
            by (simp add: write_back_def io_bind_eq io_lift_def io_ret_def
                  io_log_update(1) upd_def Let_def split: sum.splits)
          have fK: "fst (?K v) = (case fst (updateContentItem env upd v) of
                     Inl e \<Rightarrow> Inl e | Inr row \<Rightarrow> Inr ())"
            using K uv by (simp split: sum.splits)
          have sK: "snd (?K v) = snd (?U ?w1)" using K by (simp split: sum.splits)
          have E: "extends v [CategorizeAndTagContent cta (Inr res),
                              UpdateContentItem upd (fst (updateContentItem env upd v))]
                    (snd (?K v))"
            using extends_trans[OF C2 io_log_update(2)[of ?w1 "UpdateContentItem upd" env upd]]
              res sK uv by simp
          have R: "rows (snd (?K v)) = rows (snd (updateContentItem env upd ?w1))"
            using sK io_log_update(3) by simp
          have F: "\<forall>e. fst (?K v) = Inl e \<longrightarrow> rows (snd (?K v)) = rows v"
          proof (intro allI impI)
            fix e assume "fst (?K v) = Inl e"
            then obtain e' where "?u = Inl e'" using K by (cases ?u) auto
            then have "snd (updateContentItem env upd ?w1) = ?w1"
              by (rule updateContentItem_frame(2))
            then show "rows (snd (?K v)) = rows v" using R C3 by simp
          qed
          have fld: "map_of upd ''id'' = map_of newItem ''id''" "map_of upd ''category'' = c"
            "map_of upd ''transcription'' = tx" "map_of upd ''summary'' = sx"
            unfolding upd_def tx_def sx_def by (rule updatedItem_fields)+
          have T: "\<forall>k. rows (snd (?K v)) k \<noteq> rows v k \<longrightarrow> map_of newItem ''id'' = Some k"
          proof (intro allI impI)
            fix k assume "rows (snd (?K v)) k \<noteq> rows v k"
            then have "rows (snd (updateContentItem env upd ?w1)) k \<noteq> rows ?w1 k"
              using R C3 by simp
            then have "map_of upd ''id'' = Some k" by (rule updateContentItem_frame(3))
            then show "map_of newItem ''id'' = Some k" using fld(1) by simp
          qed
          have D: "\<exists>res' upd'.
                [CategorizeAndTagContent cta (Inr res),
                 UpdateContentItem upd (fst (updateContentItem env upd v))]
                = [CategorizeAndTagContent cta (Inr res'),
                       UpdateContentItem upd' (fst (updateContentItem env upd' v))]
              \<and> fst (categorizing v) = Inr res'
              \<and> fst (?K v) =
                  (case fst (updateContentItem env upd' v) of
                     Inl e \<Rightarrow> Inl e | Inr row \<Rightarrow> Inr ())
              \<and> get_prop (Some res') ''category'' = Inr (map_of upd' ''category'')
              \<and> map_of upd' ''id'' = map_of newItem ''id''
              \<and> map_of upd' ''transcription'' = tx
              \<and> map_of upd' ''summary'' = sx"
            using res fK fld c by (intro exI[of _ res] exI[of _ upd]) simp
          show ?thesis
            using E F T D
            by (intro exI[of _ "[CategorizeAndTagContent cta (Inr res),
                   UpdateContentItem upd (fst (updateContentItem env upd v))]"] conjI disjI2)
        qed
      qed
    qed
  qed
qed

text \<open>The block for an audio item: its calls, in every case.\<close>

lemma enrich_audio_calls:
  fixes env newItem w
  defines "c \<equiv> map_of newItem ''content''"
    and "m \<equiv> map_of newItem ''mimeType''"
    and "cta \<equiv> (\<lambda>t. AList.update ''type'' (JStr ''text'')
                       (AList.update ''content'' (JStr t) newItem))"
    and "R \<equiv> enrich_audio env newItem w"
  shows "\<exists>evs. extends w evs (snd R)
     \<and> (\<forall>e. fst R = Inl e \<longrightarrow> rows (snd R) = rows w)
     \<and> (\<forall>k. rows (snd R) k \<noteq> rows w k \<longrightarrow> map_of newItem ''id'' = Some k)
     \<and> ((\<exists>e. evs = [Fetch c (Inl e)] \<and> fetch_blob env c = Inl e \<and> fst R = Inl e)
        \<or> (\<exists>blob e. evs = [Fetch c (Inr blob)] \<and> fetch_blob env c = Inr blob
              \<and> audio_file m blob = Inl e \<and> fst R = Inl e)
        \<or> (\<exists>blob f e. evs = [Fetch c (Inr blob), TranscribeAudio f (Inl e)]
              \<and> fetch_blob env c = Inr blob \<and> audio_file m blob = Inr f \<and> fst R = Inl e)
        \<or> (\<exists>blob f t e.
                evs = [Fetch c (Inr blob), TranscribeAudio f (Inr t),
                       CategorizeAndTagContent (cta t) (Inl e)]
              \<and> fetch_blob env c = Inr blob \<and> audio_file m blob = Inr f \<and> fst R = Inl e)
        \<or> (\<exists>blob f t res e.
                evs = [Fetch c (Inr blob), TranscribeAudio f (Inr t),
                       CategorizeAndTagContent (cta t) (Inr res)]
              \<and> fetch_blob env c = Inr blob \<and> audio_file m blob = Inr f \<and> fst R = Inl e)
        \<or> (\<exists>blob f t res upd.
                evs = [Fetch c (Inr blob), TranscribeAudio f (Inr t),
                       CategorizeAndTagContent (cta t) (Inr res),
                       UpdateContentItem upd (fst (updateContentItem env upd w))]
              \<and> fetch_blob env c = Inr blob \<and> audio_file m blob = Inr f
              \<and> fst R = (case fst (updateContentItem env upd w) of
                           Inl e \<Rightarrow> Inl e | Inr row \<Rightarrow> Inr ())
              \<and> get_prop (Some res) ''category'' = Inr (map_of upd ''category'')
              \<and> map_of upd ''id'' = map_of newItem ''id''
              \<and> map_of upd ''transcription'' = (if t = [] then None else Some (JStr t))
              \<and> map_of upd ''summary'' = None))"
proof -
  let ?F = "io_log (Fetch c) (io_lift (fetch_blob env c))"
  have F1: "fst (?F w) = fetch_blob env c" by (simp add: io_log_eq io_lift_def)
  have F2: "extends w [Fetch c (fetch_blob env c)] (snd (?F w))"
    using io_log_only_ai(2)[where m = "io_lift (fetch_blob env c)" and ev = "Fetch c" and w = w,
            OF only_ai_lift]
    by (simp add: io_lift_def)
  have F3: "rows (snd (?F w)) = rows w"
    by (rule io_log_only_ai(3)[OF only_ai_lift])
  show ?thesis
  proof (cases "fetch_blob env c")
    case (Inl e)
    then have "R = (Inl e, snd (?F w))"
      using F1 by (simp add: R_def enrich_audio_def c_def io_bind_eq)
    then show ?thesis using F2 F3 Inl
      by (intro exI[of _ "[Fetch c (Inl e)]"]) simp
  next
    case (Inr blob)
    show ?thesis
    proof (cases "audio_file m blob")
      case (Inl e)
      then have "R = (Inl e, snd (?F w))"
        using F1 Inr by (simp add: R_def enrich_audio_def c_def m_def io_bind_eq io_lift_def)
      then show ?thesis using F2 F3 Inr Inl
        by (intro exI[of _ "[Fetch c (Inr blob)]"]) simp
    next
      case f: (Inr f)
      let ?w1 = "snd (?F w)"
      let ?T = "io_log (TranscribeAudio f) (transcribeAudio env f)"
      have T1: "fst (?T ?w1) = fst (transcribeAudio env f ?w1)"
        by (rule io_log_only_ai(1)[OF only_ai_transcribeAudio])
      have T2: "extends ?w1 [TranscribeAudio f (fst (transcribeAudio env f ?w1))] (snd (?T ?w1))"
        by (rule io_log_only_ai(2)[OF only_ai_transcribeAudio])
      have T3: "rows (snd (?T ?w1)) = rows ?w1"
        by (rule io_log_only_ai(3)[OF only_ai_transcribeAudio])
      have E: "extends w [Fetch c (Inr blob), TranscribeAudio f (fst (transcribeAudio env f ?w1))]
                 (snd (?T ?w1))"
        using extends_trans[OF F2 T2] Inr by simp
      show ?thesis
      proof (cases "fst (transcribeAudio env f ?w1)")
        case (Inl e)
        then have "R = (Inl e, snd (?T ?w1))"
          using F1 Inr f T1
          by (simp add: R_def enrich_audio_def c_def m_def io_bind_eq io_lift_def)
        then show ?thesis using E T3 F3 Inl Inr f
          by (intro exI[of _ "[Fetch c (Inr blob), TranscribeAudio f (Inl e)]"]) simp
      next
        case t: (Inr t)
        let ?v = "snd (?T ?w1)"
        let ?K = "write_back env newItem (cta t) (Some t) None
                    (categorizeAndTagContent env (cta t))"
        have RK: "R = ?K ?v"
          using F1 Inr f T1 t
          by (simp add: R_def enrich_audio_def c_def m_def cta_def io_bind_eq io_lift_def)
        have rv: "rows ?v = rows w" using T3 F3 by simp
        have E1: "extends w [Fetch c (Inr blob), TranscribeAudio f (Inr t)] ?v"
          using E t by simp
        have ou: "\<And>upd. fst (updateContentItem env upd ?v) = fst (updateContentItem env upd w)"
          by (rule updateContentItem_outcome[OF rv])
        from write_back_calls[where categorizing = "categorizeAndTagContent env (cta t)"
               and v = ?v and env = env and newItem = newItem and cta = "cta t"
               and tr = "Some t" and su = None, OF only_ai_categorizeAndTagContent]
        obtain evs2 where
          e2: "extends ?v evs2 (snd (?K ?v))"
          and f2: "\<forall>e. fst (?K ?v) = Inl e \<longrightarrow> rows (snd (?K ?v)) = rows ?v"
          and t2: "\<forall>k. rows (snd (?K ?v)) k \<noteq> rows ?v k \<longrightarrow> map_of newItem ''id'' = Some k"
          and c2: "(\<exists>e. evs2 = [CategorizeAndTagContent (cta t) (Inl e)] \<and> fst (?K ?v) = Inl e)
            \<or> (\<exists>res e. evs2 = [CategorizeAndTagContent (cta t) (Inr res)] \<and> fst (?K ?v) = Inl e)
            \<or> (\<exists>res upd.
                  evs2 = [CategorizeAndTagContent (cta t) (Inr res),
                          UpdateContentItem upd (fst (updateContentItem env upd w))]
                \<and> fst (?K ?v) = (case fst (updateContentItem env upd w) of
                                   Inl e \<Rightarrow> Inl e | Inr row \<Rightarrow> Inr ())
                \<and> get_prop (Some res) ''category'' = Inr (map_of upd ''category'')
                \<and> map_of upd ''id'' = map_of newItem ''id''
                \<and> map_of upd ''transcription'' = (if t = [] then None else Some (JStr t))
                \<and> map_of upd ''summary'' = None)"
          unfolding ou by auto
        have ex: "extends w ([Fetch c (Inr blob), TranscribeAudio f (Inr t)] @ evs2) (snd R)"
          using extends_trans[OF E1 e2] RK by simp
        have fr: "\<forall>e. fst R = Inl e \<longrightarrow> rows (snd R) = rows w"
          using f2 RK rv by simp
        have tr: "\<forall>k. rows (snd R) k \<noteq> rows w k \<longrightarrow> map_of newItem ''id'' = Some k"
          using t2 RK rv by simp
        from c2 show ?thesis
        proof (elim disjE exE conjE)
          fix e assume "evs2 = [CategorizeAndTagContent (cta t) (Inl e)]" "fst (?K ?v) = Inl e"
          then show ?thesis using ex fr tr RK Inr f
            by (intro exI[of _ "[Fetch c (Inr blob), TranscribeAudio f (Inr t),
                                 CategorizeAndTagContent (cta t) (Inl e)]"]) simp
        next
          fix res e
          assume "evs2 = [CategorizeAndTagContent (cta t) (Inr res)]" "fst (?K ?v) = Inl e"
          then show ?thesis using ex fr tr RK Inr f
            by (intro exI[of _ "[Fetch c (Inr blob), TranscribeAudio f (Inr t),
                                 CategorizeAndTagContent (cta t) (Inr res)]"]) simp
        next
          fix res upd
          assume a: "evs2 = [CategorizeAndTagContent (cta t) (Inr res),
                          UpdateContentItem upd (fst (updateContentItem env upd w))]"
            "fst (?K ?v) = (case fst (updateContentItem env upd w) of
                                   Inl e \<Rightarrow> Inl e | Inr row \<Rightarrow> Inr ())"
            "get_prop (Some res) ''category'' = Inr (map_of upd ''category'')"
            "map_of upd ''id'' = map_of newItem ''id''"
            "map_of upd ''transcription'' = (if t = [] then None else Some (JStr t))"
            "map_of upd ''summary'' = None"
          have last: "\<exists>blob' f' t' res' upd'.
                [Fetch c (Inr blob), TranscribeAudio f (Inr t),
                 CategorizeAndTagContent (cta t) (Inr res),
                 UpdateContentItem upd (fst (updateContentItem env upd w))]
                = [Fetch c (Inr blob'), TranscribeAudio f' (Inr t'),
                       CategorizeAndTagContent (cta t') (Inr res'),
                       UpdateContentItem upd' (fst (updateContentItem env upd' w))]
              \<and> fetch_blob env c = Inr blob' \<and> audio_file m blob' = Inr f'
              \<and> fst R = (case fst (updateContentItem env upd' w) of
                           Inl e \<Rightarrow> Inl e | Inr row \<Rightarrow> Inr ())
              \<and> get_prop (Some res') ''category'' = Inr (map_of upd' ''category'')
              \<and> map_of upd' ''id'' = map_of newItem ''id''
              \<and> map_of upd' ''transcription'' = (if t' = [] then None else Some (JStr t'))
              \<and> map_of upd' ''summary'' = None"
            using a RK Inr f
            by (intro exI[of _ blob] exI[of _ f] exI[of _ t] exI[of _ res] exI[of _ upd]) simp
          show ?thesis using ex fr tr last a(1)
            by (intro exI[of _ "[Fetch c (Inr blob), TranscribeAudio f (Inr t),
                 CategorizeAndTagContent (cta t) (Inr res),
                 UpdateContentItem upd (fst (updateContentItem env upd w))]"] conjI disjI2) simp_all
        qed
      qed
    qed
  qed
qed

text \<open>The block for a link: its calls, in every case.\<close>

lemma enrich_url_calls:
  fixes env newItem w summarizing
  assumes oa: "only_ai summarizing"
  defines "c \<equiv> map_of newItem ''content''"
    and "cta \<equiv> (\<lambda>s. AList.update ''type'' (JStr ''text'')
                       (AList.update ''content'' (JStr s) newItem))"
    and "R \<equiv> enrich_url env newItem summarizing w"
  shows "\<exists>evs. extends w evs (snd R)
     \<and> (\<forall>e. fst R = Inl e \<longrightarrow> rows (snd R) = rows w)
     \<and> (\<forall>k. rows (snd R) k \<noteq> rows w k \<longrightarrow> map_of newItem ''id'' = Some k)
     \<and> ((\<exists>e. evs = [SummarizeContent c ''url'' (Inl e)]
              \<and> fst (summarizing w) = Inl e \<and> fst R = Inl e)
        \<or> (\<exists>s e. evs = [SummarizeContent c ''url'' (Inr s),
                         CategorizeAndTagContent (cta s) (Inl e)]
              \<and> fst (summarizing w) = Inr s \<and> fst R = Inl e)
        \<or> (\<exists>s res e. evs = [SummarizeContent c ''url'' (Inr s),
                             CategorizeAndTagContent (cta s) (Inr res)]
              \<and> fst (summarizing w) = Inr s \<and> fst R = Inl e)
        \<or> (\<exists>s res upd.
                evs = [SummarizeContent c ''url'' (Inr s),
                       CategorizeAndTagContent (cta s) (Inr res),
                       UpdateContentItem upd (fst (updateContentItem env upd w))]
              \<and> fst (summarizing w) = Inr s
              \<and> fst R = (case fst (updateContentItem env upd w) of
                           Inl e \<Rightarrow> Inl e | Inr row \<Rightarrow> Inr ())
              \<and> get_prop (Some res) ''category'' = Inr (map_of upd ''category'')
              \<and> map_of upd ''id'' = map_of newItem ''id''
              \<and> map_of upd ''summary'' = (if s = [] then None else Some (JStr s))
              \<and> map_of upd ''transcription'' = None))"
proof -
  let ?S = "io_log (SummarizeContent c ''url'') summarizing"
  have S1: "fst (?S w) = fst (summarizing w)"
    by (rule io_log_only_ai(1)[OF oa])
  have S2: "extends w [SummarizeContent c ''url'' (fst (summarizing w))] (snd (?S w))"
    by (rule io_log_only_ai(2)[OF oa])
  have S3: "rows (snd (?S w)) = rows w"
    by (rule io_log_only_ai(3)[OF oa])
  show ?thesis
  proof (cases "fst (summarizing w)")
    case (Inl e)
    then have "R = (Inl e, snd (?S w))"
      using S1 by (simp add: R_def enrich_url_def c_def io_bind_eq)
    then show ?thesis using S2 S3 Inl
      by (intro exI[of _ "[SummarizeContent c ''url'' (Inl e)]"]) simp
  next
    case s: (Inr s)
    let ?v = "snd (?S w)"
    let ?K = "write_back env newItem (cta s) None (Some s)
                (categorizeAndTagContent env (cta s))"
    have RK: "R = ?K ?v"
      using S1 s by (simp add: R_def enrich_url_def c_def cta_def io_bind_eq)
    have E1: "extends w [SummarizeContent c ''url'' (Inr s)] ?v" using S2 s by simp
    have ou: "\<And>upd. fst (updateContentItem env upd ?v) = fst (updateContentItem env upd w)"
      by (rule updateContentItem_outcome[OF S3])
    from write_back_calls[where categorizing = "categorizeAndTagContent env (cta s)"
           and v = ?v and env = env and newItem = newItem and cta = "cta s"
           and tr = None and su = "Some s", OF only_ai_categorizeAndTagContent]
    obtain evs2 where
      e2: "extends ?v evs2 (snd (?K ?v))"
      and f2: "\<forall>e. fst (?K ?v) = Inl e \<longrightarrow> rows (snd (?K ?v)) = rows ?v"
      and t2: "\<forall>k. rows (snd (?K ?v)) k \<noteq> rows ?v k \<longrightarrow> map_of newItem ''id'' = Some k"
      and c2: "(\<exists>e. evs2 = [CategorizeAndTagContent (cta s) (Inl e)] \<and> fst (?K ?v) = Inl e)
        \<or> (\<exists>res e. evs2 = [CategorizeAndTagContent (cta s) (Inr res)] \<and> fst (?K ?v) = Inl e)
        \<or> (\<exists>res upd.
              evs2 = [CategorizeAndTagContent (cta s) (Inr res),
                      UpdateContentItem upd (fst (updateContentItem env upd w))]
            \<and> fst (?K ?v) = (case fst (updateContentItem env upd w) of
                               Inl e \<Rightarrow> Inl e | Inr row \<Rightarrow> Inr ())
            \<and> get_prop (Some res) ''category'' = Inr (map_of upd ''category'')
            \<and> map_of upd ''id'' = map_of newItem ''id''
            \<and> map_of upd ''summary'' = (if s = [] then None else Some (JStr s))
            \<and> map_of upd ''transcription'' = None)"
      unfolding ou by auto
    have ex: "extends w ([SummarizeContent c ''url'' (Inr s)] @ evs2) (snd R)"
      using extends_trans[OF E1 e2] RK by simp
    have fr: "\<forall>e. fst R = Inl e \<longrightarrow> rows (snd R) = rows w"
      using f2 RK S3 by simp
    have tr: "\<forall>k. rows (snd R) k \<noteq> rows w k \<longrightarrow> map_of newItem ''id'' = Some k"
      using t2 RK S3 by simp
    from c2 show ?thesis
    proof (elim disjE exE conjE)
      fix e assume "evs2 = [CategorizeAndTagContent (cta s) (Inl e)]" "fst (?K ?v) = Inl e"
      then show ?thesis using ex fr tr RK s
        by (intro exI[of _ "[SummarizeContent c ''url'' (Inr s),
                             CategorizeAndTagContent (cta s) (Inl e)]"]) simp
    next
      fix res e
      assume "evs2 = [CategorizeAndTagContent (cta s) (Inr res)]" "fst (?K ?v) = Inl e"
      then show ?thesis using ex fr tr RK s
        by (intro exI[of _ "[SummarizeContent c ''url'' (Inr s),
                             CategorizeAndTagContent (cta s) (Inr res)]"]) simp
    next
      fix res upd
      assume a: "evs2 = [CategorizeAndTagContent (cta s) (Inr res),
                      UpdateContentItem upd (fst (updateContentItem env upd w))]"
        "fst (?K ?v) = (case fst (updateContentItem env upd w) of
                               Inl e \<Rightarrow> Inl e | Inr row \<Rightarrow> Inr ())"
        "get_prop (Some res) ''category'' = Inr (map_of upd ''category'')"
        "map_of upd ''id'' = map_of newItem ''id''"
        "map_of upd ''summary'' = (if s = [] then None else Some (JStr s))"
        "map_of upd ''transcription'' = None"
      have last: "\<exists>s' res' upd'.
            [SummarizeContent c ''url'' (Inr s),
             CategorizeAndTagContent (cta s) (Inr res),
             UpdateContentItem upd (fst (updateContentItem env upd w))]
            = [SummarizeContent c ''url'' (Inr s'),
                   CategorizeAndTagContent (cta s') (Inr res'),
                   UpdateContentItem upd' (fst (updateContentItem env upd' w))]
          \<and> fst (summarizing w) = Inr s'
          \<and> fst R = (case fst (updateContentItem env upd' w) of
                       Inl e \<Rightarrow> Inl e | Inr row \<Rightarrow> Inr ())
          \<and> get_prop (Some res') ''category'' = Inr (map_of upd' ''category'')
          \<and> map_of upd' ''id'' = map_of newItem ''id''
          \<and> map_of upd' ''summary'' = (if s' = [] then None else Some (JStr s'))
          \<and> map_of upd' ''transcription'' = None"
        using a RK s
        by (intro exI[of _ s] exI[of _ res] exI[of _ upd]) simp
      show ?thesis using ex fr tr last a(1)
        by (intro exI[of _ "[SummarizeContent c ''url'' (Inr s),
             CategorizeAndTagContent (cta s) (Inr res),
             UpdateContentItem upd (fst (updateContentItem env upd w))]"] conjI disjI2) simp_all
    qed
  qed
qed

text \<open>A gateway function is its first half followed by its second.\<close>

lemma summarizeContent_split:
  "summarizeContent env c k =
     io_bind (summarizeContent_sent env c k) (summarizeContent_answered env)"
proof
  fix w
  show "summarizeContent env c k w =
     io_bind (summarizeContent_sent env c k) (summarizeContent_answered env) w"
    by (cases "fst (getAi env w)")
       (simp_all add: summarizeContent_def summarizeContent_sent_def
          summarizeContent_answered_def io_bind_eq io_ret_def io_lift_def)
qed

lemma categorizeAndTagContent_split:
  "categorizeAndTagContent env item =
     io_bind (categorizeAndTagContent_sent env item) (categorizeAndTagContent_answered env)"
proof
  fix w
  show "categorizeAndTagContent env item w =
     io_bind (categorizeAndTagContent_sent env item) (categorizeAndTagContent_answered env) w"
    by (cases "fst (getAi env w)"; cases "categorize_contents item")
       (auto simp: categorizeAndTagContent_def categorizeAndTagContent_sent_def
          categorizeAndTagContent_answered_def categorize_request_def bind_e_def
          io_bind_eq io_lift_def split: sum.splits)
qed

text \<open>Resuming a call that was sent gives what the call as a whole gives.\<close>

lemma io_bind_sent:
  "io_bind (io_lift (fst (m w))) f (snd (m w)) = io_bind m f w"
  by (cases "m w") (simp add: io_bind_def io_lift_def split: sum.splits)

lemma io_log_cong: "m w = m' w' \<Longrightarrow> io_log ev m w = io_log ev m' w'"
  by (simp add: io_log_def)

text \<open>The block left at its first \<^verbatim>\<open>await\<close> and resumed at once is the block.\<close>

lemma resume_started:
  "resume env (fst (start_enrichment env newItem w)) (snd (start_enrichment env newItem w))
     = enrich env newItem w"
proof (cases "map_of newItem ''type'' = Some (JStr ''audio'')")
  case True
  then show ?thesis by (simp add: start_enrichment_def enrich_def)
next
  case na: False
  show ?thesis
  proof (cases "map_of newItem ''type'' = Some (JStr ''url'')")
    case True
    let ?m = "summarizeContent_sent env (map_of newItem ''content'') ''url''"
    have st: "start_enrichment env newItem w = (AwaitSummary newItem (fst (?m w)), snd (?m w))"
      using na True by (cases "?m w") (simp add: start_enrichment_def)
    have "io_bind (io_lift (fst (?m w))) (summarizeContent_answered env) (snd (?m w))
            = summarizeContent env (map_of newItem ''content'') ''url'' w"
      by (simp add: io_bind_sent summarizeContent_split)
    then have "io_log (SummarizeContent (map_of newItem ''content'') ''url'')
                 (io_bind (io_lift (fst (?m w))) (summarizeContent_answered env)) (snd (?m w))
             = io_log (SummarizeContent (map_of newItem ''content'') ''url'')
                 (summarizeContent env (map_of newItem ''content'') ''url'') w"
      by (rule io_log_cong)
    then show ?thesis
      using na True by (simp add: st enrich_def enrich_url_def io_bind_def)
  next
    case False
    let ?m = "categorizeAndTagContent_sent env newItem"
    have st: "start_enrichment env newItem w = (AwaitCategories newItem (fst (?m w)), snd (?m w))"
      using na False by (cases "?m w") (simp add: start_enrichment_def)
    have "io_bind (io_lift (fst (?m w))) (categorizeAndTagContent_answered env) (snd (?m w))
            = categorizeAndTagContent env newItem w"
      by (simp add: io_bind_sent categorizeAndTagContent_split)
    then have "io_log (CategorizeAndTagContent newItem)
                 (io_bind (io_lift (fst (?m w))) (categorizeAndTagContent_answered env)) (snd (?m w))
             = io_log (CategorizeAndTagContent newItem) (categorizeAndTagContent env newItem) w"
      by (rule io_log_cong)
    then show ?thesis
      using na False by (simp add: st enrich_def write_back_def io_bind_def)
  qed
qed


text \<open>Whatever the task, resuming it logs its calls, each gateway function at most once;
  it touches no row but the new item's, and none when it fails.\<close>

lemma resume_frame:
  "\<exists>evs. extends w evs (snd (resume env t w))
     \<and> distinct (map event_name evs)
     \<and> (\<forall>e. fst (resume env t w) = Inl e \<longrightarrow> rows (snd (resume env t w)) = rows w)
     \<and> (\<forall>k. rows (snd (resume env t w)) k \<noteq> rows w k \<longrightarrow> map_of (task_item t) ''id'' = Some k)"
proof (cases t)
  case (AwaitFetch newItem)
  have "\<exists>evs. extends w evs (snd (enrich_audio env newItem w))
     \<and> distinct (map event_name evs)
     \<and> (\<forall>e. fst (enrich_audio env newItem w) = Inl e
            \<longrightarrow> rows (snd (enrich_audio env newItem w)) = rows w)
     \<and> (\<forall>k. rows (snd (enrich_audio env newItem w)) k \<noteq> rows w k
            \<longrightarrow> map_of newItem ''id'' = Some k)"
    using enrich_audio_calls[of w env newItem]
    apply (elim exE conjE)
    subgoal for evs
      apply (rule exI[of _ evs])
      apply (intro conjI)
         apply assumption
        apply (elim disjE exE conjE)
             apply simp_all
      done
    done
  then show ?thesis using AwaitFetch by simp
next
  case (AwaitSummary newItem sent)
  let ?R = "enrich_url env newItem (io_bind (io_lift sent) (summarizeContent_answered env)) w"
  have "\<exists>evs. extends w evs (snd ?R)
     \<and> distinct (map event_name evs)
     \<and> (\<forall>e. fst ?R = Inl e \<longrightarrow> rows (snd ?R) = rows w)
     \<and> (\<forall>k. rows (snd ?R) k \<noteq> rows w k \<longrightarrow> map_of newItem ''id'' = Some k)"
    using enrich_url_calls[where summarizing =
             "io_bind (io_lift sent) (summarizeContent_answered env)"
           and w = w and env = env and newItem = newItem, OF only_ai_summary_answered]
    apply (elim exE conjE)
    subgoal for evs
      apply (rule exI[of _ evs])
      apply (intro conjI)
         apply assumption
        apply (elim disjE exE conjE)
           apply simp_all
      done
    done
  then show ?thesis using AwaitSummary by simp
next
  case (AwaitCategories newItem sent)
  let ?R = "write_back env newItem newItem None None
              (io_bind (io_lift sent) (categorizeAndTagContent_answered env)) w"
  have "\<exists>evs. extends w evs (snd ?R)
     \<and> distinct (map event_name evs)
     \<and> (\<forall>e. fst ?R = Inl e \<longrightarrow> rows (snd ?R) = rows w)
     \<and> (\<forall>k. rows (snd ?R) k \<noteq> rows w k \<longrightarrow> map_of newItem ''id'' = Some k)"
    using write_back_calls[where categorizing =
           "io_bind (io_lift sent) (categorizeAndTagContent_answered env)"
         and v = w and env = env and newItem = newItem and cta = newItem
         and tr = None and su = None, OF only_ai_categories_answered]
    apply (elim exE conjE)
    subgoal for evs
      apply (rule exI[of _ evs])
      apply (intro conjI)
         apply assumption
        apply (elim disjE exE conjE)
          apply simp_all
      done
    done
  then show ?thesis using AwaitCategories by simp
qed

section \<open>The enrichment pipeline: order of calls and the write-back\<close>








section \<open>The enrichment task is detached and its failures are dropped\<close>


lemma addContentItem_frame:
  shows "extends w [] (snd (addContentItem env item w))"
    and "ai (snd (addContentItem env item w)) = ai w"
  by (auto simp: addContentItem_def Let_def extends_def split: option.splits sum.splits)

lemma new_calls_extends: "extends w evs w' \<Longrightarrow> new_calls w w' = evs"
  by (simp add: extends_def new_calls_def)

text \<open>The part of the block that runs inside the handler changes nothing but the AI
  gateway's client variable, and the task it leaves is for the new item.\<close>

lemma start_enrichment_frame:
  shows "\<exists>b. snd (start_enrichment env newItem w) = w\<lparr>ai := b\<rparr>"
    and "task_item (fst (start_enrichment env newItem w)) = newItem"
proof -
  let ?s = "summarizeContent_sent env (map_of newItem ''content'') ''url''"
  let ?c = "categorizeAndTagContent_sent env newItem"
  obtain b1 where b1: "snd (?s w) = w\<lparr>ai := b1\<rparr>"
    using only_ai_summarizeContent_sent[of env "map_of newItem ''content''" "''url''"]
    unfolding only_ai_def by blast
  obtain b2 where b2: "snd (?c w) = w\<lparr>ai := b2\<rparr>"
    using only_ai_categorizeAndTagContent_sent[of env newItem]
    unfolding only_ai_def by blast
  have b0: "w = w\<lparr>ai := ai w\<rparr>" by simp
  show "\<exists>b. snd (start_enrichment env newItem w) = w\<lparr>ai := b\<rparr>"
  proof (cases "map_of newItem ''type'' = Some (JStr ''audio'')")
    case True
    then have "snd (start_enrichment env newItem w) = w\<lparr>ai := ai w\<rparr>"
      by (simp add: start_enrichment_def)
    then show ?thesis by (rule exI)
  next
    case na: False
    show ?thesis
    proof (cases "map_of newItem ''type'' = Some (JStr ''url'')")
      case True
      then have "snd (start_enrichment env newItem w) = w\<lparr>ai := b1\<rparr>"
        using na b1 by (cases "?s w") (simp add: start_enrichment_def)
      then show ?thesis by (rule exI)
    next
      case False
      then have "snd (start_enrichment env newItem w) = w\<lparr>ai := b2\<rparr>"
        using na b2 by (cases "?c w") (simp add: start_enrichment_def)
      then show ?thesis by (rule exI)
    qed
  qed
  show "task_item (fst (start_enrichment env newItem w)) = newItem"
    by (cases "?s w"; cases "?c w") (simp add: start_enrichment_def)
qed

lemma addContentItem_ai_free:
  "addContentItem (env\<lparr>API_KEY := k, generateContent := g, JSON_parse := p, number_text := nt,
                      fetch_blob := fb, readAsDataURL := rd\<rparr>) itemData w
   = addContentItem env itemData w"
  by (auto simp: addContentItem_def getUserId_def Let_def split: option.splits sum.splits)

lemma handleAddItem_world:
  "handleAddItem env itemData w =
     (case fst (addContentItem env itemData w) of
        Inl err \<Rightarrow>
          (snd (addContentItem env itemData w))
            \<lparr>calls := calls w @ [AddContentItem itemData (Inl err)],
             console := console w @ [err],
             message := Notice ''Could not add your content. Please try again.''\<rparr>
      | Inr newItem \<Rightarrow>
          (let v = (snd (addContentItem env itemData w))
                     \<lparr>calls := calls w @ [AddContentItem itemData (Inr newItem)]\<rparr>
           in (snd (start_enrichment env newItem v))
                \<lparr>tasks := tasks w @ [fst (start_enrichment env newItem v)]\<rparr>))"
proof -
  let ?a = "addContentItem env itemData w"
  have e: "calls (snd ?a) = calls w" "console (snd ?a) = console w" "tasks (snd ?a) = tasks w"
    using addContentItem_frame(1)[of w env itemData] by (simp_all add: extends_def)
  show ?thesis
  proof (cases "fst ?a")
    case (Inl err)
    then show ?thesis using e by (simp add: handleAddItem_def io_log_eq)
  next
    case (Inr newItem)
    let ?v = "(snd ?a)\<lparr>calls := calls w @ [AddContentItem itemData (Inr newItem)]\<rparr>"
    obtain b where b: "snd (start_enrichment env newItem ?v) = ?v\<lparr>ai := b\<rparr>"
      using start_enrichment_frame(1)[of env newItem ?v] by blast
    have "tasks (snd (start_enrichment env newItem ?v)) = tasks w" using b e by simp
    then show ?thesis
      using Inr e
      by (cases "start_enrichment env newItem ?v")
         (simp add: handleAddItem_def io_log_eq Let_def)
  qed
qed

lemma handleAddItem_started:
  assumes "fst (addContentItem env itemData w) = Inr newItem"
  shows "\<exists>t. tasks (handleAddItem env itemData w) = tasks w @ [t] \<and> task_item t = newItem"
    and "new_calls w (handleAddItem env itemData w) = [AddContentItem itemData (Inr newItem)]"
    and "message (handleAddItem env itemData w) = message w"
    and "console (handleAddItem env itemData w) = console w"
    and "rows (handleAddItem env itemData w) = rows (snd (addContentItem env itemData w))"
proof -
  let ?a = "addContentItem env itemData w"
  let ?v = "(snd ?a)\<lparr>calls := calls w @ [AddContentItem itemData (Inr newItem)]\<rparr>"
  let ?s = "start_enrichment env newItem ?v"
  have H: "handleAddItem env itemData w = (snd ?s)\<lparr>tasks := tasks w @ [fst ?s]\<rparr>"
    using assms by (simp add: handleAddItem_world Let_def)
  obtain b where b: "snd ?s = ?v\<lparr>ai := b\<rparr>"
    using start_enrichment_frame(1)[of env newItem ?v] by blast
  have e: "message (snd ?a) = message w" "console (snd ?a) = console w"
    using addContentItem_frame(1)[of w env itemData] by (simp_all add: extends_def)
  have "tasks (handleAddItem env itemData w) = tasks w @ [fst ?s] \<and> task_item (fst ?s) = newItem"
    using H start_enrichment_frame(2)[of env newItem ?v] by simp
  then show "\<exists>t. tasks (handleAddItem env itemData w) = tasks w @ [t] \<and> task_item t = newItem"
    by (rule exI)
  show "new_calls w (handleAddItem env itemData w) = [AddContentItem itemData (Inr newItem)]"
    using H b by (simp add: new_calls_def)
  show "message (handleAddItem env itemData w) = message w" using H b e by simp
  show "console (handleAddItem env itemData w) = console w" using H b e by simp
  show "rows (handleAddItem env itemData w) = rows (snd ?a)" using H b by simp
qed

text \<open>Of the handler's world, only the client variable and what the pending task holds
  of its first call depend on the AI collaborators.\<close>

lemma handleAddItem_ai_free:
  fixes env k g p nt fb rd
  defines "env' \<equiv> env\<lparr>API_KEY := k, generateContent := g, JSON_parse := p, number_text := nt,
                        fetch_blob := fb, readAsDataURL := rd\<rparr>"
  shows "rows (handleAddItem env' itemData w) = rows (handleAddItem env itemData w)"
    and "calls (handleAddItem env' itemData w) = calls (handleAddItem env itemData w)"
    and "message (handleAddItem env' itemData w) = message (handleAddItem env itemData w)"
    and "console (handleAddItem env' itemData w) = console (handleAddItem env itemData w)"
    and "map task_item (tasks (handleAddItem env' itemData w))
           = map task_item (tasks (handleAddItem env itemData w))"
proof -
  let ?a = "addContentItem env itemData w"
  have a: "addContentItem env' itemData w = ?a"
    unfolding env'_def by (rule addContentItem_ai_free)
  have all: "rows (handleAddItem env' itemData w) = rows (handleAddItem env itemData w)
    \<and> calls (handleAddItem env' itemData w) = calls (handleAddItem env itemData w)
    \<and> message (handleAddItem env' itemData w) = message (handleAddItem env itemData w)
    \<and> console (handleAddItem env' itemData w) = console (handleAddItem env itemData w)
    \<and> map task_item (tasks (handleAddItem env' itemData w))
           = map task_item (tasks (handleAddItem env itemData w))"
  proof (cases "fst ?a")
    case (Inl err)
    then show ?thesis by (simp add: handleAddItem_world a)
  next
    case (Inr newItem)
    let ?v = "(snd ?a)\<lparr>calls := calls w @ [AddContentItem itemData (Inr newItem)]\<rparr>"
    obtain b where b: "snd (start_enrichment env newItem ?v) = ?v\<lparr>ai := b\<rparr>"
      using start_enrichment_frame(1)[of env newItem ?v] by blast
    obtain b' where b': "snd (start_enrichment env' newItem ?v) = ?v\<lparr>ai := b'\<rparr>"
      using start_enrichment_frame(1)[of env' newItem ?v] by blast
    show ?thesis
      using Inr b b' start_enrichment_frame(2)[of env newItem ?v]
        start_enrichment_frame(2)[of env' newItem ?v]
      by (simp add: handleAddItem_world a Let_def)
  qed
  show "rows (handleAddItem env' itemData w) = rows (handleAddItem env itemData w)"
    and "calls (handleAddItem env' itemData w) = calls (handleAddItem env itemData w)"
    and "message (handleAddItem env' itemData w) = message (handleAddItem env itemData w)"
    and "console (handleAddItem env' itemData w) = console (handleAddItem env itemData w)"
    and "map task_item (tasks (handleAddItem env' itemData w))
           = map task_item (tasks (handleAddItem env itemData w))"
    using all by simp_all
qed

lemma run_task_failed:
  assumes "i < length (tasks w)"
    and "fst (resume env (tasks w ! i) (w\<lparr>tasks := take i (tasks w) @ drop (Suc i) (tasks w)\<rparr>))
           = Inl e"
  shows "rows (run_task env i w) = rows w"
    and "tasks (run_task env i w) = take i (tasks w) @ drop (Suc i) (tasks w)"
    and "message (run_task env i w) = message w"
    and "console (run_task env i w) = console w @ [e]"
    and "distinct (map event_name (new_calls w (run_task env i w)))"
proof -
  let ?v = "w\<lparr>tasks := take i (tasks w) @ drop (Suc i) (tasks w)\<rparr>"
  let ?t = "tasks w ! i"
  from resume_frame[of ?v env ?t] obtain evs where
    ex: "extends ?v evs (snd (resume env ?t ?v))"
    and d: "distinct (map event_name evs)"
    and f: "rows (snd (resume env ?t ?v)) = rows ?v"
    using assms(2) by blast
  have rt: "run_task env i w =
      (snd (resume env ?t ?v))\<lparr>console := console (snd (resume env ?t ?v)) @ [e]\<rparr>"
    using assms by (cases "resume env ?t ?v") (simp add: run_task_def)
  show "rows (run_task env i w) = rows w" using rt f by simp
  show "tasks (run_task env i w) = take i (tasks w) @ drop (Suc i) (tasks w)"
    using rt ex by (simp add: extends_def)
  show "message (run_task env i w) = message w" using rt ex by (simp add: extends_def)
  show "console (run_task env i w) = console w @ [e]" using rt ex by (simp add: extends_def)
  have "new_calls w (run_task env i w) = evs" using rt ex by (simp add: extends_def new_calls_def)
  then show "distinct (map event_name (new_calls w (run_task env i w)))" using d by simp
qed

text \<open>
  C3. A successful create starts exactly one enrichment task, for the item created, and
  the handler returns with that task pending, left at its first \<^verbatim>\<open>await\<close>: the
  handler has logged the create and no other call that returned, and it has touched
  neither the message nor the console. The table, the call log, the message, the console
  and the items of the pending tasks are the same whatever the API key and the AI
  collaborators are (the AI client variable and what the task holds of its first call
  are not). When a pending task is resumed and fails at any step, the error goes to the
  console and nowhere else: the table is as it was (so the item keeps the fields it was
  created with), the message is as it was, the task is gone from the pending tasks (no
  second attempt), and no gateway function was called twice.
\<close>

theorem enrichment_detached_failures_dropped:
  "(\<forall>newItem. fst (addContentItem env itemData w) = Inr newItem \<longrightarrow>
       (\<exists>t. tasks (handleAddItem env itemData w) = tasks w @ [t] \<and> task_item t = newItem)
       \<and> new_calls w (handleAddItem env itemData w) = [AddContentItem itemData (Inr newItem)]
       \<and> message (handleAddItem env itemData w) = message w
       \<and> console (handleAddItem env itemData w) = console w
       \<and> rows (handleAddItem env itemData w) = rows (snd (addContentItem env itemData w)))
   \<and> (rows (handleAddItem (env\<lparr>API_KEY := k, generateContent := g, JSON_parse := p,
                                 number_text := nt, fetch_blob := fb, readAsDataURL := rd\<rparr>)
                 itemData w)
         = rows (handleAddItem env itemData w)
       \<and> calls (handleAddItem (env\<lparr>API_KEY := k, generateContent := g, JSON_parse := p,
                                 number_text := nt, fetch_blob := fb, readAsDataURL := rd\<rparr>)
                 itemData w)
         = calls (handleAddItem env itemData w)
       \<and> message (handleAddItem (env\<lparr>API_KEY := k, generateContent := g, JSON_parse := p,
                                 number_text := nt, fetch_blob := fb, readAsDataURL := rd\<rparr>)
                 itemData w)
         = message (handleAddItem env itemData w)
       \<and> console (handleAddItem (env\<lparr>API_KEY := k, generateContent := g, JSON_parse := p,
                                 number_text := nt, fetch_blob := fb, readAsDataURL := rd\<rparr>)
                 itemData w)
         = console (handleAddItem env itemData w)
       \<and> map task_item
           (tasks (handleAddItem (env\<lparr>API_KEY := k, generateContent := g, JSON_parse := p,
                                 number_text := nt, fetch_blob := fb, readAsDataURL := rd\<rparr>)
                 itemData w))
         = map task_item (tasks (handleAddItem env itemData w)))
   \<and> (\<forall>i e.
         i < length (tasks w)
         \<and> fst (resume env (tasks w ! i)
                  (w\<lparr>tasks := take i (tasks w) @ drop (Suc i) (tasks w)\<rparr>)) = Inl e \<longrightarrow>
           rows (run_task env i w) = rows w
           \<and> tasks (run_task env i w) = take i (tasks w) @ drop (Suc i) (tasks w)
           \<and> message (run_task env i w) = message w
           \<and> console (run_task env i w) = console w @ [e]
           \<and> distinct (map event_name (new_calls w (run_task env i w))))"
proof (intro conjI allI impI)
  fix newItem assume a: "fst (addContentItem env itemData w) = Inr newItem"
  show "\<exists>t. tasks (handleAddItem env itemData w) = tasks w @ [t] \<and> task_item t = newItem"
    by (rule handleAddItem_started(1)[OF a])
  show "new_calls w (handleAddItem env itemData w) = [AddContentItem itemData (Inr newItem)]"
    by (rule handleAddItem_started(2)[OF a])
  show "message (handleAddItem env itemData w) = message w"
    by (rule handleAddItem_started(3)[OF a])
  show "console (handleAddItem env itemData w) = console w"
    by (rule handleAddItem_started(4)[OF a])
  show "rows (handleAddItem env itemData w) = rows (snd (addContentItem env itemData w))"
    by (rule handleAddItem_started(5)[OF a])
next
  show "rows (handleAddItem (env\<lparr>API_KEY := k, generateContent := g, JSON_parse := p,
                                 number_text := nt, fetch_blob := fb, readAsDataURL := rd\<rparr>)
                 itemData w)
         = rows (handleAddItem env itemData w)"
    by (rule handleAddItem_ai_free(1))
next
  show "calls (handleAddItem (env\<lparr>API_KEY := k, generateContent := g, JSON_parse := p,
                                 number_text := nt, fetch_blob := fb, readAsDataURL := rd\<rparr>)
                 itemData w)
         = calls (handleAddItem env itemData w)"
    by (rule handleAddItem_ai_free(2))
next
  show "message (handleAddItem (env\<lparr>API_KEY := k, generateContent := g, JSON_parse := p,
                                 number_text := nt, fetch_blob := fb, readAsDataURL := rd\<rparr>)
                 itemData w)
         = message (handleAddItem env itemData w)"
    by (rule handleAddItem_ai_free(3))
next
  show "console (handleAddItem (env\<lparr>API_KEY := k, generateContent := g, JSON_parse := p,
                                 number_text := nt, fetch_blob := fb, readAsDataURL := rd\<rparr>)
                 itemData w)
         = console (handleAddItem env itemData w)"
    by (rule handleAddItem_ai_free(4))
next
  show "map task_item
           (tasks (handleAddItem (env\<lparr>API_KEY := k, generateContent := g, JSON_parse := p,
                                 number_text := nt, fetch_blob := fb, readAsDataURL := rd\<rparr>)
                 itemData w))
         = map task_item (tasks (handleAddItem env itemData w))"
    by (rule handleAddItem_ai_free(5))
next
  fix i e
  assume "i < length (tasks w)
         \<and> fst (resume env (tasks w ! i)
                  (w\<lparr>tasks := take i (tasks w) @ drop (Suc i) (tasks w)\<rparr>)) = Inl e"
  then have t: "i < length (tasks w)"
    and f: "fst (resume env (tasks w ! i)
                  (w\<lparr>tasks := take i (tasks w) @ drop (Suc i) (tasks w)\<rparr>)) = Inl e"
    by simp_all
  show "rows (run_task env i w) = rows w" by (rule run_task_failed(1)[OF t f])
  show "tasks (run_task env i w) = take i (tasks w) @ drop (Suc i) (tasks w)"
    by (rule run_task_failed(2)[OF t f])
  show "message (run_task env i w) = message w" by (rule run_task_failed(3)[OF t f])
  show "console (run_task env i w) = console w @ [e]" by (rule run_task_failed(4)[OF t f])
  show "distinct (map event_name (new_calls w (run_task env i w)))"
    by (rule run_task_failed(5)[OF t f])
qed


text \<open>A client without an API key: the link is stored and the handler is quiet; the one
  task is pending with the failure of its first call inside it; resumed, it fails, and
  only the console knows. With a key the handler leaves the same table, and the AI
  client has been created inside the handler.\<close>

theorem enrichment_detached_failures_dropped_witness:
  "fst (addContentItem keyless_env url_data empty_world) = Inr url_created
   \<and> tasks (handleAddItem keyless_env url_data empty_world) =
       [AwaitSummary url_created (Inl ApiKeyNotSet)]
   \<and> message (handleAddItem keyless_env url_data empty_world) = Quiet
   \<and> console (handleAddItem keyless_env url_data empty_world) = []
   \<and> ai (handleAddItem sample_env url_data empty_world)
   \<and> \<not> ai (handleAddItem keyless_env url_data empty_world)
   \<and> rows (handleAddItem keyless_env url_data empty_world) =
       rows (handleAddItem sample_env url_data empty_world)
   \<and> rows (run_task keyless_env 0 (handleAddItem keyless_env url_data empty_world)) =
       rows (handleAddItem keyless_env url_data empty_world)
   \<and> tasks (run_task keyless_env 0 (handleAddItem keyless_env url_data empty_world)) = []
   \<and> console (run_task keyless_env 0 (handleAddItem keyless_env url_data empty_world)) =
       [ApiKeyNotSet]"
proof -
  let ?w1 = "handleAddItem keyless_env url_data empty_world"
  have a: "fst (addContentItem keyless_env url_data empty_world) = Inr url_created"
    by code_simp
  have m: "message empty_world = Quiet" "tasks empty_world = []" "console empty_world = []"
    by (simp_all add: empty_world_def)
  have t: "tasks ?w1 = [AwaitSummary url_created (Inl ApiKeyNotSet)]"
    by code_simp
  have ai1: "ai (handleAddItem sample_env url_data empty_world)" by code_simp
  have ai2: "\<not> ai ?w1" by code_simp
  note T1 = enrichment_detached_failures_dropped[where env = keyless_env and itemData = url_data
              and w = empty_world]
  have q: "message ?w1 = Quiet" "console ?w1 = []"
    using T1 a m by auto
  have k: "sample_env\<lparr>API_KEY := None, generateContent := generateContent sample_env,
             JSON_parse := JSON_parse sample_env, number_text := number_text sample_env,
             fetch_blob := fetch_blob sample_env, readAsDataURL := readAsDataURL sample_env\<rparr>
           = keyless_env"
    by (simp add: keyless_env_def)
  note T0 = enrichment_detached_failures_dropped[where env = sample_env and itemData = url_data
              and w = empty_world and k = None and g = "generateContent sample_env"
              and p = "JSON_parse sample_env" and nt = "number_text sample_env"
              and fb = "fetch_blob sample_env" and rd = "readAsDataURL sample_env"]
  have same: "rows ?w1 = rows (handleAddItem sample_env url_data empty_world)"
    using T0 unfolding k by simp
  have f: "fst (resume keyless_env (tasks ?w1 ! 0)
                  (?w1\<lparr>tasks := take 0 (tasks ?w1) @ drop (Suc 0) (tasks ?w1)\<rparr>))
             = Inl ApiKeyNotSet"
    by code_simp
  have l: "0 < length (tasks ?w1)" using t by simp
  note T2 = enrichment_detached_failures_dropped[where env = keyless_env and itemData = url_data
              and w = ?w1]
  have r: "rows (run_task keyless_env 0 ?w1) = rows ?w1
           \<and> tasks (run_task keyless_env 0 ?w1) = take 0 (tasks ?w1) @ drop (Suc 0) (tasks ?w1)
           \<and> console (run_task keyless_env 0 ?w1) = console ?w1 @ [ApiKeyNotSet]"
    using T2 l f by blast
  show ?thesis using a t q ai1 ai2 same r by simp
qed

section \<open>Categorization: what is refused and what is returned\<close>


lemma getAi_result:
  "fst (getAi env w) =
     (if ai w \<or> (API_KEY env \<noteq> None \<and> API_KEY env \<noteq> Some []) then Inr () else Inl ApiKeyNotSet)"
  by (simp add: getAi_def)

text \<open>
  C5 (amended). \<^verbatim>\<open>categorizeAndTagContent\<close> called with an item of type \<^verbatim>\<open>url\<close> or
  \<^verbatim>\<open>audio\<close> never returns a result. It fails with the unsupported-type error (the
  specification's \<^verbatim>\<open>ValidationError\<close>) whenever the AI client is there or can be made
  (an API key is set); without a client and without a key it fails before it looks at
  the type, with the missing-key error.
\<close>

theorem categorize_rejects_url_and_audio:
  assumes "map_of item ''type'' = Some (JStr ''url'') \<or> map_of item ''type'' = Some (JStr ''audio'')"
  shows "fst (categorizeAndTagContent env item w) =
           Inl (if ai w \<or> (API_KEY env \<noteq> None \<and> API_KEY env \<noteq> Some [])
                then UnsupportedContentType (map_of item ''type'') else ApiKeyNotSet)"
proof -
  have c: "categorize_contents item = Inl (UnsupportedContentType (map_of item ''type''))"
    using assms by (auto simp: categorize_contents_def)
  show ?thesis
    by (simp add: categorizeAndTagContent_def io_bind_eq getAi_result io_lift_def c)
qed

text \<open>With a key, a link is refused for its type.\<close>

theorem categorize_rejects_url_and_audio_witness:
  "(map_of url_item ''type'' = Some (JStr ''url'') \<or> map_of url_item ''type'' = Some (JStr ''audio''))
   \<and> API_KEY sample_env = Some ''key''
   \<and> fst (categorizeAndTagContent sample_env url_item empty_world) =
       Inl (UnsupportedContentType (Some (JStr ''url'')))"
proof -
  have h: "map_of url_item ''type'' = Some (JStr ''url'') \<or> map_of url_item ''type'' = Some (JStr ''audio'')"
    by (simp add: url_item_def)
  have k: "API_KEY sample_env = Some ''key''" by (simp add: sample_env_def)
  have t: "map_of url_item ''type'' = Some (JStr ''url'')" by (simp add: url_item_def)
  show ?thesis
    using h k categorize_rejects_url_and_audio[OF h, of sample_env empty_world] t by simp
qed

text \<open>C5 as stated fails without an API key: the failure is not the unsupported-type
  error.\<close>

theorem categorize_without_key_counterexample:
  "map_of url_item ''type'' = Some (JStr ''url'')
   \<and> fst (categorizeAndTagContent keyless_env url_item empty_world) = Inl ApiKeyNotSet
   \<and> fst (categorizeAndTagContent keyless_env url_item empty_world)
       \<noteq> Inl (UnsupportedContentType (Some (JStr ''url'')))"
  by code_simp

lemma conforms_string_list:
  "list_all (conforms SString) xs \<Longrightarrow> \<exists>ts. xs = map JStr ts"
proof (induction xs)
  case Nil
  then show ?case by simp
next
  case (Cons x xs)
  then obtain ts where "xs = map JStr ts" by auto
  moreover obtain s where "x = JStr s" using Cons.prems by (cases x) auto
  ultimately have "x # xs = map JStr (s # ts)" by simp
  then show ?case by (rule exI[of _ "s # ts"])
qed

lemma conforms_categorize_schema:
  assumes "conforms categorize_schema res"
  shows "\<exists>c ts. get_prop (Some res) ''category'' = Inr (Some (JStr c))
               \<and> get_prop (Some res) ''tags'' = Inr (Some (JArr (map JStr ts)))"
proof -
  obtain kvs where res: "res = JObj kvs"
    using assms by (cases res) (auto simp: categorize_schema_def)
  have k: "''category'' \<in> fst ` set kvs" "''tags'' \<in> fst ` set kvs"
    and p: "case map_of kvs ''category'' of None \<Rightarrow> True | Some x \<Rightarrow> conforms SString x"
           "case map_of kvs ''tags'' of None \<Rightarrow> True | Some x \<Rightarrow> conforms (SArray SString) x"
    using assms res by (simp_all add: categorize_schema_def)
  obtain x where x: "map_of kvs ''category'' = Some x"
    using k(1) by (metis map_of_eq_None_iff not_Some_eq)
  obtain y where y: "map_of kvs ''tags'' = Some y"
    using k(2) by (metis map_of_eq_None_iff not_Some_eq)
  obtain c where c: "x = JStr c" using p(1) x by (cases x) auto
  obtain xs where xs: "y = JArr xs" "list_all (conforms SString) xs"
    using p(2) y by (cases y) auto
  obtain ts where "xs = map JStr ts" using conforms_string_list[OF xs(2)] by blast
  then show ?thesis using res x y c xs by (intro exI[of _ c] exI[of _ ts]) simp
qed

text \<open>
  C8 (amended). Every successful result of \<^verbatim>\<open>categorizeAndTagContent\<close> is the value
  that \<^verbatim>\<open>JSON.parse\<close> makes of the model's answer to a request carrying the
  category-and-tags schema, returned as it is. When that value conforms to the schema it
  has a string category and a tags array of strings. The number of tags and their letter
  case are asked for in the prompt and checked nowhere.
\<close>

theorem categorize_result_is_parsed_answer:
  assumes "fst (categorizeAndTagContent env item w) = Inr res"
  shows "\<exists>model contents text.
           categorize_contents item = Inr (model, contents)
         \<and> generateContent env
             \<lparr>req_model = model, req_contents = contents,
              req_config = \<lparr>responseMimeType = Some ''application/json'',
                            responseSchema = Some categorize_schema, tools = []\<rparr>\<rparr> = Inr text
         \<and> JSON_parse env text = Some res
         \<and> (conforms categorize_schema res \<longrightarrow>
              (\<exists>c ts. get_prop (Some res) ''category'' = Inr (Some (JStr c))
                     \<and> get_prop (Some res) ''tags'' = Inr (Some (JArr (map JStr ts)))))"
proof -
  obtain model contents where c: "categorize_contents item = Inr (model, contents)"
    using assms
    by (cases "categorize_contents item")
       (auto simp: categorizeAndTagContent_def io_bind_eq io_lift_def split: sum.splits)
  let ?req = "\<lparr>req_model = model, req_contents = contents,
              req_config = \<lparr>responseMimeType = Some ''application/json'',
                            responseSchema = Some categorize_schema, tools = []\<rparr>\<rparr>"
  obtain answer where t: "generateContent env ?req = Inr answer"
    using assms c
    by (cases "generateContent env ?req")
       (auto simp: categorizeAndTagContent_def io_bind_eq io_lift_def split: sum.splits)
  have "JSON_parse env answer = Some res"
    using assms c t
    by (cases "JSON_parse env answer")
       (auto simp: categorizeAndTagContent_def io_bind_eq io_lift_def split: sum.splits)
  then show ?thesis using c t conforms_categorize_schema by blast
qed

text \<open>The sample answer conforms, and has a string category and string tags.\<close>

theorem categorize_result_is_parsed_answer_witness:
  "fst (categorizeAndTagContent sample_env text_item empty_world) = Inr sample_category
   \<and> conforms categorize_schema sample_category
   \<and> (\<exists>c ts. get_prop (Some sample_category) ''category'' = Inr (Some (JStr c))
            \<and> get_prop (Some sample_category) ''tags'' = Inr (Some (JArr (map JStr ts))))"
proof -
  have h: "fst (categorizeAndTagContent sample_env text_item empty_world) = Inr sample_category"
    by code_simp
  have c: "conforms categorize_schema sample_category"
    by (simp add: categorize_schema_def sample_category_def)
  show ?thesis using h c categorize_result_is_parsed_answer[OF h] by blast
qed

text \<open>C8 as stated fails on an answer with five tags, one of them capitalized: it is
  the result.\<close>

theorem categorize_five_tags_counterexample:
  "fst (categorizeAndTagContent five_tags_env text_item empty_world) =
     Inr (JObj [(''category'', JStr ''Work''),
                (''tags'', JArr [JStr ''Alpha'', JStr ''b'', JStr ''c'', JStr ''d'', JStr ''e''])])
   \<and> \<not> at_most_four_lowercase_tags
         (JObj [(''category'', JStr ''Work''),
                (''tags'', JArr [JStr ''Alpha'', JStr ''b'', JStr ''c'', JStr ''d'', JStr ''e''])])"
  by code_simp


section \<open>Batch organize: the priorities\<close>








text \<open>Beyond the safe range the priority goes through the platform's text: the sample
  platform prints the double of 999999999999999999999 as \<^verbatim>\<open>1e+21\<close>, and
  \<^verbatim>\<open>parseInt\<close> reads 1 from it.\<close>

lemma organized_priority_beyond_safe_range:
  "\<not> safe_integer 999999999999999999999
   \<and> organized_priority (number_text sample_env) (Some (JNum 999999999999999999999)) = Some 1"
  by code_simp


section \<open>The batch update is the store's upsert\<close>


lemma map_of_without:
  "map_of (without ks ob) k = (if k \<in> set ks then None else map_of ob k)"
  by (induction ob) (auto simp: without_def)

lemma map_of_set_defined:
  "map_of (set_defined k v ob) k' = (if k' = k \<and> v \<noteq> None then v else map_of ob k')"
  by (cases v) (simp_all add: set_defined_def update_conv')

lemma toSupabase_keeps:
  assumes "k \<notin> {''createdAt'', ''aiAnalysis'', ''mimeType'', ''created_at'', ''ai_analysis'', ''mime_type''}"
  shows "map_of (toSupabase item) k = map_of item k"
  using assms by (simp add: toSupabase_def map_of_set_defined map_of_without)

lemma toSupabase_id: "map_of (toSupabase item) ''id'' = map_of item ''id''"
  by (rule toSupabase_keeps) simp



lemma toSupabase_renamed:
  shows "map_of item ''createdAt'' \<noteq> None
           \<Longrightarrow> map_of (toSupabase item) ''created_at'' = map_of item ''createdAt''"
    and "map_of item ''aiAnalysis'' \<noteq> None
           \<Longrightarrow> map_of (toSupabase item) ''ai_analysis'' = map_of item ''aiAnalysis''"
    and "map_of item ''mimeType'' \<noteq> None
           \<Longrightarrow> map_of (toSupabase item) ''mime_type'' = map_of item ''mimeType''"
    and "map_of (toSupabase item) ''createdAt'' = None"
    and "map_of (toSupabase item) ''aiAnalysis'' = None"
    and "map_of (toSupabase item) ''mimeType'' = None"
  by (simp_all add: toSupabase_def map_of_set_defined map_of_without)

lemma updateMultipleContentItems_result:
  "updateMultipleContentItems env updates w =
     ((case fst (store_upsert env (map toSupabase updates) (rows w)) of
         Some e \<Rightarrow> Inl e | None \<Rightarrow> Inr ()),
      w\<lparr>rows := snd (store_upsert env (map toSupabase updates) (rows w))\<rparr>)"
  by (cases "store_upsert env (map toSupabase updates) (rows w)")
     (simp add: updateMultipleContentItems_def Let_def split: option.splits)

text \<open>
  C10 (amended). \<^verbatim>\<open>updateMultipleContentItems\<close> is implemented with the store's
  upsert and with nothing else: it hands all the updates to the store in one upsert
  request, without looking at the table to see which ids exist; it fails exactly when
  the store answers with an error, and the table afterwards is what the store made of the
  request. Each update reaches the store with its id and its supplied fields, the three
  fields \<^verbatim>\<open>createdAt\<close>, \<^verbatim>\<open>aiAnalysis\<close> and \<^verbatim>\<open>mimeType\<close> under the store's column
  names. Whether a row is created for an id that the store does not hold is the store's
  decision, not the gateway's.
\<close>

theorem batch_update_is_the_stores_upsert:
  "updateMultipleContentItems env updates w =
     ((case fst (store_upsert env (map toSupabase updates) (rows w)) of
         Some e \<Rightarrow> Inl e | None \<Rightarrow> Inr ()),
      w\<lparr>rows := snd (store_upsert env (map toSupabase updates) (rows w))\<rparr>)
   \<and> (\<forall>u \<in> set updates.
         map_of (toSupabase u) ''id'' = map_of u ''id''
       \<and> (\<forall>k. k \<notin> {''createdAt'', ''aiAnalysis'', ''mimeType'',
                     ''created_at'', ''ai_analysis'', ''mime_type''}
              \<longrightarrow> map_of (toSupabase u) k = map_of u k)
       \<and> (map_of u ''createdAt'' \<noteq> None
              \<longrightarrow> map_of (toSupabase u) ''created_at'' = map_of u ''createdAt'')
       \<and> (map_of u ''aiAnalysis'' \<noteq> None
              \<longrightarrow> map_of (toSupabase u) ''ai_analysis'' = map_of u ''aiAnalysis'')
       \<and> (map_of u ''mimeType'' \<noteq> None
              \<longrightarrow> map_of (toSupabase u) ''mime_type'' = map_of u ''mimeType'')
       \<and> map_of (toSupabase u) ''createdAt'' = None
       \<and> map_of (toSupabase u) ''aiAnalysis'' = None
       \<and> map_of (toSupabase u) ''mimeType'' = None)"
proof (intro conjI ballI allI impI)
  show "updateMultipleContentItems env updates w =
     ((case fst (store_upsert env (map toSupabase updates) (rows w)) of
         Some e \<Rightarrow> Inl e | None \<Rightarrow> Inr ()),
      w\<lparr>rows := snd (store_upsert env (map toSupabase updates) (rows w))\<rparr>)"
    by (rule updateMultipleContentItems_result)
next
  fix u :: obj show "map_of (toSupabase u) ''id'' = map_of u ''id''" by (rule toSupabase_id)
next
  fix u :: obj and k
  assume "k \<notin> {''createdAt'', ''aiAnalysis'', ''mimeType'',
                ''created_at'', ''ai_analysis'', ''mime_type''}"
  then show "map_of (toSupabase u) k = map_of u k" by (rule toSupabase_keeps)
next
  fix u :: obj assume "map_of u ''createdAt'' \<noteq> None"
  then show "map_of (toSupabase u) ''created_at'' = map_of u ''createdAt''"
    by (rule toSupabase_renamed(1))
next
  fix u :: obj assume "map_of u ''aiAnalysis'' \<noteq> None"
  then show "map_of (toSupabase u) ''ai_analysis'' = map_of u ''aiAnalysis''"
    by (rule toSupabase_renamed(2))
next
  fix u :: obj assume "map_of u ''mimeType'' \<noteq> None"
  then show "map_of (toSupabase u) ''mime_type'' = map_of u ''mimeType''"
    by (rule toSupabase_renamed(3))
next
  fix u :: obj show "map_of (toSupabase u) ''createdAt'' = None" by (rule toSupabase_renamed(4))
next
  fix u :: obj show "map_of (toSupabase u) ''aiAnalysis'' = None" by (rule toSupabase_renamed(5))
next
  fix u :: obj show "map_of (toSupabase u) ''mimeType'' = None" by (rule toSupabase_renamed(6))
qed

text \<open>The sample store creates missing rows: it has no item 9, the batch update
  succeeds, and the table has the row with the supplied fields.\<close>

theorem batch_update_is_the_stores_upsert_witness:
  "rows two_rows (JStr ''9'') = None
   \<and> map toSupabase [[(''id'', JStr ''9''), (''category'', JStr ''Work''), (''priority'', JNum 3)]]
       = [[(''id'', JStr ''9''), (''category'', JStr ''Work''), (''priority'', JNum 3)]]
   \<and> updateMultipleContentItems sample_env
        [[(''id'', JStr ''9''), (''category'', JStr ''Work''), (''priority'', JNum 3)]] two_rows
       = (Inr (),
          two_rows\<lparr>rows := snd (sample_upsert
            [[(''id'', JStr ''9''), (''category'', JStr ''Work''), (''priority'', JNum 3)]]
            (rows two_rows))\<rparr>)
   \<and> snd (sample_upsert
            [[(''id'', JStr ''9''), (''category'', JStr ''Work''), (''priority'', JNum 3)]]
            (rows two_rows)) (JStr ''9'')
       = Some [(''id'', JStr ''9''), (''category'', JStr ''Work''), (''priority'', JNum 3)]"
proof -
  let ?u = "[(''id'', JStr ''9''), (''category'', JStr ''Work''), (''priority'', JNum 3)]"
  have d: "rows two_rows (JStr ''9'') = None" by (simp add: two_rows_def empty_world_def)
  have m: "map toSupabase [?u] = [?u]" by code_simp
  have s: "store_upsert sample_env = sample_upsert" by (simp add: sample_env_def)
  have a: "fst (sample_upsert [?u] (rows two_rows)) = None" by (simp add: sample_upsert_def)
  have v: "snd (sample_upsert [?u] (rows two_rows)) (JStr ''9'') = Some ?u"
    by (simp add: sample_upsert_def upsert_row_def d)
  note T = batch_update_is_the_stores_upsert[of sample_env "[?u]" two_rows]
  from T have "updateMultipleContentItems sample_env [?u] two_rows =
     ((case fst (sample_upsert (map toSupabase [?u]) (rows two_rows)) of
         Some e \<Rightarrow> Inl e | None \<Rightarrow> Inr ()),
      two_rows\<lparr>rows := snd (sample_upsert (map toSupabase [?u]) (rows two_rows))\<rparr>)"
    unfolding s by (rule conjunct1)
  then have r: "updateMultipleContentItems sample_env [?u] two_rows =
     (Inr (), two_rows\<lparr>rows := snd (sample_upsert [?u] (rows two_rows))\<rparr>)"
    unfolding m using a by simp
  show ?thesis using d m r v by simp
qed

text \<open>C10 as stated fails on a store whose table requires columns that the update does
  not supply: the id 9 is not in the table, the call fails with the store's error, and no
  row is inserted.\<close>

theorem batch_update_refused_counterexample:
  "rows two_rows (JStr ''9'') = None
   \<and> fst (updateMultipleContentItems demanding_env
            [[(''id'', JStr ''9''), (''category'', JStr ''Work''), (''priority'', JNum 3)]] two_rows)
       = Inl (StoreError ''23502'')
   \<and> rows (snd (updateMultipleContentItems demanding_env
            [[(''id'', JStr ''9''), (''category'', JStr ''Work''), (''priority'', JNum 3)]] two_rows))
        (JStr ''9'') = None"
  by code_simp

section \<open>Batch organize: which rows are written\<close>












section \<open>The live subscription after unsubscribe\<close>


lemma sub_step_unsubscribed:
  assumes "\<not> channel s"
  shows "\<not> channel (sub_step ev s)"
    and "in_flight (sub_step ev s) \<le> in_flight s"
    and "length (delivered (sub_step ev s)) + in_flight (sub_step ev s)
           \<le> length (delivered s) + in_flight s"
    and "\<exists>more. delivered (sub_step ev s) = delivered s @ more"
  using assms by (cases ev; auto split: sum.splits)+

lemma run_unsubscribed:
  assumes "\<not> channel s"
  shows "\<not> channel (fold sub_step evs s)
       \<and> in_flight (fold sub_step evs s) \<le> in_flight s
       \<and> length (delivered (fold sub_step evs s)) + in_flight (fold sub_step evs s)
             \<le> length (delivered s) + in_flight s
       \<and> (\<exists>more. delivered (fold sub_step evs s) = delivered s @ more)"
  using assms
proof (induction evs arbitrary: s)
  case Nil
  then show ?case by simp
next
  case (Cons ev evs)
  note st = sub_step_unsubscribed[OF Cons.prems, of ev]
  from Cons.IH[OF st(1)] st show ?case
    by auto
qed


text \<open>
  C7 (amended). Once the unsubscribe handle has been invoked, a change of the collection
  starts no fetch and delivers nothing, however many changes follow. The callback can
  still be called by fetches that were in flight when the handle was invoked, once for
  each such fetch that succeeds, and by nothing else: the deliveries after that moment
  number at most the fetches in flight at that moment, and there is none when no fetch
  was in flight.
\<close>

theorem unsubscribe_stops_all_but_fetches_in_flight:
  "sub_step Change (fold sub_step evs (sub_step Unsubscribe s))
     = fold sub_step evs (sub_step Unsubscribe s)
   \<and> in_flight (fold sub_step evs (sub_step Unsubscribe s)) \<le> in_flight s
   \<and> length (delivered (fold sub_step evs (sub_step Unsubscribe s)))
       \<le> length (delivered s) + in_flight s
   \<and> (in_flight s = 0 \<longrightarrow> delivered (fold sub_step evs (sub_step Unsubscribe s)) = delivered s)"
proof -
  let ?u = "sub_step Unsubscribe s"
  let ?e = "fold sub_step evs ?u"
  have u: "\<not> channel ?u" "in_flight ?u = in_flight s" "delivered ?u = delivered s" by simp_all
  from run_unsubscribed[OF u(1), of evs]
  have c: "\<not> channel ?e" and i: "in_flight ?e \<le> in_flight s"
    and l: "length (delivered ?e) + in_flight ?e \<le> length (delivered s) + in_flight s"
    and m: "\<exists>more. delivered ?e = delivered s @ more"
    using u(2,3) by auto
  have "sub_step Change ?e = ?e" using c by simp
  moreover have "length (delivered ?e) \<le> length (delivered s) + in_flight s" using l by simp
  moreover have "in_flight s = 0 \<longrightarrow> delivered ?e = delivered s"
  proof
    assume z: "in_flight s = 0"
    obtain more where more: "delivered ?e = delivered s @ more" using m by blast
    have "length (delivered ?e) \<le> length (delivered s)" using l z by simp
    then have "more = []" using more by simp
    then show "delivered ?e = delivered s" using more by simp
  qed
  ultimately show ?thesis using i by blast
qed

text \<open>A subscription whose first fetch has settled: later changes and a stray
  settlement deliver nothing after the handle was invoked.\<close>

theorem unsubscribe_stops_all_but_fetches_in_flight_witness:
  "in_flight (sub_step (Settle (Inr [text_item])) subscribeToContentItems) = 0
   \<and> delivered (fold sub_step [Change, Settle (Inr []), Change]
        (sub_step Unsubscribe (sub_step (Settle (Inr [text_item])) subscribeToContentItems)))
     = delivered (sub_step (Settle (Inr [text_item])) subscribeToContentItems)"
proof -
  have z: "in_flight (sub_step (Settle (Inr [text_item])) subscribeToContentItems) = 0"
    by (simp add: subscribeToContentItems_def)
  show ?thesis
    using z unsubscribe_stops_all_but_fetches_in_flight
      [of "[Change, Settle (Inr []), Change]"
          "sub_step (Settle (Inr [text_item])) subscribeToContentItems"]
    by blast
qed

text \<open>C7 as stated fails for the first fetch: unsubscribe before it settles, and its
  snapshot is still delivered.\<close>

theorem delivery_after_unsubscribe_counterexample:
  "delivered (sub_step Unsubscribe subscribeToContentItems) = []
   \<and> \<not> channel (sub_step Unsubscribe subscribeToContentItems)
   \<and> delivered (sub_step (Settle (Inr [text_item])) (sub_step Unsubscribe subscribeToContentItems))
       = [[text_item]]"
  by (simp add: subscribeToContentItems_def)


end

